theory Spec2Isabelle
  imports Main "HOL-Library.Word"
begin

section \<open>Bytes, buffers and outcomes\<close>

text \<open>
  The tool works on raw bytes of an Insta360 media file. A buffer is a list of bytes, a
  pointer into a buffer is the buffer together with a signed index. C gives no meaning to
  an access outside the allocated buffer; the model makes such an access the outcome
  \<open>Undefined\<close>, next to the negative return codes of the source (\<open>Failure\<close>).
  \<open>uint32_t\<close> fields are \<open>32 word\<close>, so their arithmetic wraps as in C; \<open>size_t\<close> is taken
  to be 64 bits wide. C \<open>int\<close> variables whose values provably stay small are \<open>int\<close>.
\<close>

type_synonym byte = "8 word"

datatype error = Failure int | Undefined

definition kInsFileSignature :: "byte list" where
  "kInsFileSignature = map of_char ''8db42d694ccc418790edff439fe026bf''"

definition kInsFileSignatureLength :: nat where
  "kInsFileSignatureLength = 32"

definition kInsFileMinHeaderLength :: nat where
  "kInsFileMinHeaderLength = kInsFileSignatureLength + 40"

definition kCopyBufferSize :: int where
  "kCopyBufferSize = 8 * 1024"

text \<open>\<open>peek_n mem p n\<close> reads the \<open>n\<close> bytes at index \<open>p\<close>; \<open>None\<close> when one of them lies
  outside the buffer.\<close>

definition peek_n :: "byte list \<Rightarrow> int \<Rightarrow> nat \<Rightarrow> byte list option" where
  "peek_n mem p n =
     (if 0 \<le> p \<and> nat p + n \<le> length mem then Some (take n (drop (nat p) mem)) else None)"

text \<open>\<open>poke mem p bs\<close> stores the bytes \<open>bs\<close> at index \<open>p\<close>; \<open>None\<close> when one of them would
  land outside the buffer.\<close>

definition poke :: "byte list \<Rightarrow> int \<Rightarrow> byte list \<Rightarrow> byte list option" where
  "poke mem p bs =
     (if 0 \<le> p \<and> nat p + length bs \<le> length mem
      then Some (take (nat p) mem @ bs @ drop (nat p + length bs) mem) else None)"

text \<open>Little-endian fields, as the packed structures lie in the file.\<close>

definition le16 :: "byte list \<Rightarrow> 16 word" where
  "le16 bs = ucast (bs ! 0) + 256 * ucast (bs ! 1)"

definition le32 :: "byte list \<Rightarrow> 32 word" where
  "le32 bs = ucast (bs ! 0) + 256 * ucast (bs ! 1) + 65536 * ucast (bs ! 2)
             + 16777216 * ucast (bs ! 3)"

definition enc16 :: "16 word \<Rightarrow> byte list" where
  "enc16 w = [ucast w, ucast (w div 256)]"

definition enc32 :: "32 word \<Rightarrow> byte list" where
  "enc32 w = [ucast w, ucast (w div 256), ucast (w div 65536), ucast (w div 16777216)]"

section \<open>Structures of the file and of the decoder\<close>

record InsFileTrailerEntryHeaderType =
  entry_type :: "16 word"
  entry_length :: "32 word"

record InsFileTrailerHeaderType =
  trailer_len :: "32 word"
  trailer_version :: "32 word"

record InsFileSpecificDataTagHeaderType =
  type_code :: byte
  data_size :: byte

text \<open>The in-memory records hold pointers into the trailer buffer. The buffer is never
  written after it was read, so the pointed-to header is kept by value; the data pointer is
  an index into the buffer.\<close>

record InsTrailerEntryHeaderInfoType =
  entry_hdr :: InsFileTrailerEntryHeaderType
  trailer_offset_to_data :: "64 word"

record InsSpecificDataTagHeaderInfoType =
  hdr_offset :: int
  tag_hdr :: InsFileSpecificDataTagHeaderType
  tag_data :: int

definition kInsFileSpecificHeaderTagTypeOffset :: byte where
  "kInsFileSpecificHeaderTagTypeOffset = 0x2A"

definition read_tag_hdr :: "byte list \<Rightarrow> int \<Rightarrow> InsFileSpecificDataTagHeaderType option" where
  "read_tag_hdr mem p =
     (case peek_n mem p 2 of
        None \<Rightarrow> None
      | Some bs \<Rightarrow> Some \<lparr>type_code = bs ! 0, data_size = bs ! 1\<rparr>)"

definition read_entry_hdr :: "byte list \<Rightarrow> int \<Rightarrow> InsFileTrailerEntryHeaderType option" where
  "read_entry_hdr mem p =
     (case peek_n mem p 6 of
        None \<Rightarrow> None
      | Some bs \<Rightarrow> Some \<lparr>entry_type = le16 bs, entry_length = le32 (drop 2 bs)\<rparr>)"

section \<open>Decoding the tags of the specific-info entry\<close>

text \<open>
  \<open>ins_decode_trailer_specific_header\<close>: the \<open>for\<close> loop over at most \<open>kMaxTagsCount\<close> tags.
  The first argument of \<open>decode_tags\<close> counts the iterations that are left; \<open>position\<close>,
  \<open>bytes_left\<close>, \<open>hdr_elements_count\<close> and the vector are the loop's variables. The check of
  \<open>data_size\<close> uses the \<open>bytes_left\<close> computed before the two header bytes were consumed.
\<close>

record specific_header_result =
  hdr_elements_count :: int
  out_hdr_elements :: "InsSpecificDataTagHeaderInfoType list"
  out_tail_ptr :: int
  out_tail_size :: int

definition kMaxTagsCount :: nat where
  "kMaxTagsCount = 4"

fun decode_tags ::
  "nat \<Rightarrow> byte list \<Rightarrow> int \<Rightarrow> int \<Rightarrow> int \<Rightarrow> int \<Rightarrow> int \<Rightarrow>
   InsSpecificDataTagHeaderInfoType list \<Rightarrow> error + specific_header_result" where
  "decode_tags 0 mem hdr_data hdr_size position bytes_left cnt v =
     Inr \<lparr>hdr_elements_count = cnt, out_hdr_elements = v,
          out_tail_ptr = hdr_data + position, out_tail_size = bytes_left\<rparr>"
| "decode_tags (Suc k) mem hdr_data hdr_size position bytes_left cnt v =
     (case read_tag_hdr mem (hdr_data + position) of
        None \<Rightarrow> Inl Undefined
      | Some th \<Rightarrow>
          if uint (data_size th) > bytes_left then Inl (Failure (- 1))
          else
            let hdr_elem = \<lparr>hdr_offset = position, tag_hdr = th,
                            tag_data = hdr_data + (position + 2)\<rparr>;
                position' = position + 2 + uint (data_size th);
                bytes_left' = hdr_size - position'
            in if position' \<ge> hdr_size
               then Inr \<lparr>hdr_elements_count = cnt + 1, out_hdr_elements = v @ [hdr_elem],
                         out_tail_ptr = hdr_data + position', out_tail_size = bytes_left'\<rparr>
               else decode_tags k mem hdr_data hdr_size position' bytes_left' (cnt + 1)
                      (v @ [hdr_elem]))"

definition ins_decode_trailer_specific_header ::
  "byte list \<Rightarrow> int \<Rightarrow> int \<Rightarrow> InsSpecificDataTagHeaderInfoType list \<Rightarrow>
   error + specific_header_result" where
  "ins_decode_trailer_specific_header mem hdr_data hdr_size v =
     decode_tags kMaxTagsCount mem hdr_data hdr_size 0 (hdr_size - 0) 0 v"

section \<open>Decoding the trailer entries\<close>

text \<open>
  \<open>ins_decode_trailer_data\<close>: the \<open>while\<close> loop walks from the signature side towards the
  start of the trailer. \<open>trailer_read_pos\<close> is a \<open>uint32_t\<close> and wraps; an entry whose
  length makes it wrap can send the walk round for ever, so the loop is a partial function
  and \<open>None\<close> stands for a walk that never ends.
\<close>

partial_function (option) find_trailer_headers ::
  "byte list \<Rightarrow> 32 word \<Rightarrow> 32 word \<Rightarrow> InsTrailerEntryHeaderInfoType list \<Rightarrow>
   (error + (32 word \<times> InsTrailerEntryHeaderInfoType list)) option" where
  "find_trailer_headers trailer_data tlen trailer_read_pos v =
     (if trailer_read_pos < tlen then
        (case read_entry_hdr trailer_data (uint tlen - uint trailer_read_pos - 6) of
           None \<Rightarrow> Some (Inl Undefined)
         | Some trailer_hdr \<Rightarrow>
             find_trailer_headers trailer_data tlen
               (trailer_read_pos + (entry_length trailer_hdr + 6))
               (v @ [\<lparr>entry_hdr = trailer_hdr,
                       trailer_offset_to_data =
                         ucast (tlen - trailer_read_pos - entry_length trailer_hdr) - 6\<rparr>]))
      else Some (Inr (trailer_read_pos, v)))"

declare find_trailer_headers.simps [code]

definition ins_decode_trailer_data ::
  "byte list \<Rightarrow> InsFileTrailerHeaderType \<Rightarrow> InsTrailerEntryHeaderInfoType list \<Rightarrow>
   (error + InsTrailerEntryHeaderInfoType list) option" where
  "ins_decode_trailer_data trailer_data trailer_info v =
     (case find_trailer_headers trailer_data (trailer_len trailer_info)
             (word_of_nat kInsFileMinHeaderLength) v of
        None \<Rightarrow> None
      | Some (Inl e) \<Rightarrow> Some (Inl e)
      | Some (Inr (trailer_read_pos, v')) \<Rightarrow>
          if trailer_read_pos \<noteq> trailer_len trailer_info then Some (Inl (Failure (- 1)))
          else Some (Inr v'))"

section \<open>Files\<close>

text \<open>
  An open input file is its content and a position. \<open>fseek_end\<close> leaves the position where
  it was when the target would lie before the start of the file (the source ignores the
  result of \<open>fseek\<close>); \<open>fread\<close> returns the bytes that are there, fewer than asked at the end
  of the file. The output device accepts \<open>cap\<close> bytes in all: \<open>fwrite\<close> appends what still
  fits, and the number of bytes appended is the count it reports. The output stream is
  taken without the buffer of the C library, so a write that the device cannot take is
  reported by the call that makes it; on a buffered stream \<open>fwrite\<close> may report the full
  count and the bytes be lost at \<open>fflush\<close> or \<open>fclose\<close>, whose results the source does not
  look at.
\<close>

definition fseek_end :: "byte list \<Rightarrow> int \<Rightarrow> int \<Rightarrow> int" where
  "fseek_end file pos off = (if 0 \<le> int (length file) + off then int (length file) + off else pos)"

definition fread :: "byte list \<Rightarrow> int \<Rightarrow> nat \<Rightarrow> byte list" where
  "fread file pos n = take n (drop (nat pos) file)"

definition fwrite :: "nat \<Rightarrow> byte list \<Rightarrow> byte list \<Rightarrow> byte list" where
  "fwrite cap out bs = out @ take (cap - length out) bs"

definition ins_find_and_read_minimal_header :: "byte list \<Rightarrow> error + (int \<times> byte list)" where
  "ins_find_and_read_minimal_header file =
     (let file_length = int (length file) in
      if file_length < int kInsFileMinHeaderLength then Inl (Failure (- 1))
      else
        let pos1 = fseek_end file file_length (- int kInsFileSignatureLength);
            ins_signature_buffer = fread file pos1 kInsFileSignatureLength
        in if length ins_signature_buffer \<noteq> kInsFileSignatureLength then Inl (Failure (- 1))
           else if ins_signature_buffer \<noteq> kInsFileSignature then Inl (Failure (- 1))
           else
             let pos2 = fseek_end file (pos1 + int (length ins_signature_buffer))
                          (- int kInsFileMinHeaderLength);
                 out_minimal_header = fread file pos2 kInsFileMinHeaderLength
             in if length out_minimal_header \<noteq> kInsFileMinHeaderLength
                then Inl (Failure (- 1))
                else Inr (pos2 + int (length out_minimal_header), out_minimal_header))"

text \<open>
  \<open>ins_read_allocate_trailer\<close>. The seek offset is \<open>-((int32_t) trailer_len)\<close>, computed here
  in 32-bit two's complement. The allocation is assumed to succeed.
\<close>

definition ins_read_allocate_trailer ::
  "byte list \<Rightarrow> error + (InsFileTrailerHeaderType \<times> byte list)" where
  "ins_read_allocate_trailer file =
     (case ins_find_and_read_minimal_header file of
        Inl e \<Rightarrow> Inl (Failure (- 1))
      | Inr (pos, minimal_ins_header_data) \<Rightarrow>
          let ti_bytes = drop (kInsFileMinHeaderLength - kInsFileSignatureLength - 8)
                           minimal_ins_header_data;
              trailer_info = \<lparr>trailer_len = le32 ti_bytes,
                              trailer_version = le32 (drop 4 ti_bytes)\<rparr>;
              pos' = fseek_end file pos (sint (- trailer_len trailer_info));
              trailer_data = fread file pos' (unat (trailer_len trailer_info))
          in if unat (trailer_len trailer_info) > length trailer_data then Inl (Failure (- 2))
             else Inr (trailer_info, trailer_data))"

section \<open>Rebuilding the specific-info payload\<close>

text \<open>
  \<open>new_offset\<close> is a C string: the bytes in memory up to the first zero byte.
  \<open>(int) strlen(new_offset)\<close> is the length cut to 32 bits and read as signed.
\<close>

definition c_string :: "byte list \<Rightarrow> byte list" where
  "c_string s = takeWhile (\<lambda>b. b \<noteq> 0) s"

definition strlen_int :: "byte list \<Rightarrow> int" where
  "strlen_int s = sint (word_of_nat (length (c_string s)) :: 32 word)"

text \<open>The first loop of \<open>ins_change_stitching_offset\<close>: the size of the first tag of type
  \<open>kInsFileSpecificHeaderTagTypeOffset\<close>, and 0 when there is none.\<close>

fun find_offset_size :: "InsSpecificDataTagHeaderInfoType list \<Rightarrow> int" where
  "find_offset_size [] = 0"
| "find_offset_size (e # es) =
     (if type_code (tag_hdr e) = kInsFileSpecificHeaderTagTypeOffset
      then uint (data_size (tag_hdr e)) else find_offset_size es)"

text \<open>The second loop: every tag is written to the new buffer at \<open>new_trailer_hdr_pos\<close>, an
  offset tag with the new value, any other tag with its bytes from the trailer buffer.\<close>

fun copy_tags ::
  "byte list \<Rightarrow> byte list \<Rightarrow> int \<Rightarrow> InsSpecificDataTagHeaderInfoType list \<Rightarrow>
   byte list \<Rightarrow> int \<Rightarrow> (byte list \<times> int) option" where
  "copy_tags mem new_offset new_offset_size [] new_trailer_hdr new_trailer_hdr_pos =
     Some (new_trailer_hdr, new_trailer_hdr_pos)"
| "copy_tags mem new_offset new_offset_size (e # es) new_trailer_hdr new_trailer_hdr_pos =
     (if type_code (tag_hdr e) = kInsFileSpecificHeaderTagTypeOffset then
        (case poke new_trailer_hdr new_trailer_hdr_pos
                [type_code (tag_hdr e), word_of_int new_offset_size] of
           None \<Rightarrow> None
         | Some b1 \<Rightarrow>
             (case poke b1 (new_trailer_hdr_pos + 2) (take (nat new_offset_size) new_offset) of
                None \<Rightarrow> None
              | Some b2 \<Rightarrow>
                  copy_tags mem new_offset new_offset_size es b2
                    (new_trailer_hdr_pos + 2 + new_offset_size)))
      else
        (case poke new_trailer_hdr new_trailer_hdr_pos
                [type_code (tag_hdr e), data_size (tag_hdr e)] of
           None \<Rightarrow> None
         | Some b1 \<Rightarrow>
             (case peek_n mem (tag_data e) (unat (data_size (tag_hdr e))) of
                None \<Rightarrow> None
              | Some d \<Rightarrow>
                  (case poke b1 (new_trailer_hdr_pos + 2) d of
                     None \<Rightarrow> None
                   | Some b2 \<Rightarrow>
                       copy_tags mem new_offset new_offset_size es b2
                         (new_trailer_hdr_pos + 2 + uint (data_size (tag_hdr e)))))))"

text \<open>The tag that is added when no offset size was found.\<close>

definition add_offset_tag ::
  "byte list \<Rightarrow> int \<Rightarrow> byte list \<Rightarrow> int \<Rightarrow> (byte list \<times> int) option" where
  "add_offset_tag new_offset new_offset_size new_trailer_hdr new_trailer_hdr_pos =
     (case poke new_trailer_hdr new_trailer_hdr_pos
             [kInsFileSpecificHeaderTagTypeOffset, word_of_int new_offset_size] of
        None \<Rightarrow> None
      | Some b1 \<Rightarrow>
          (case poke b1 (new_trailer_hdr_pos + 2) (take (nat new_offset_size) new_offset) of
             None \<Rightarrow> None
           | Some b2 \<Rightarrow> Some (b2, new_trailer_hdr_pos + 2 + new_offset_size)))"

text \<open>The size of the new buffer, as the source computes it.\<close>

definition new_header_size :: "int \<Rightarrow> int \<Rightarrow> int \<Rightarrow> int" where
  "new_header_size in_trailer_hdr_size stitching_offset_current_size new_offset_size =
     in_trailer_hdr_size - stitching_offset_current_size + new_offset_size"

text \<open>
  \<open>ins_change_stitching_offset\<close>. The new buffer has \<open>new_header_size\<close> zero bytes; a store
  outside it, a \<open>memcpy\<close> with a negative size, and a size that leaves the range of \<open>int\<close>
  are \<open>Undefined\<close>. The result is the new buffer and its size.
\<close>

definition ins_change_stitching_offset ::
  "byte list \<Rightarrow> int \<Rightarrow> int \<Rightarrow> byte list \<Rightarrow> error + (byte list \<times> int)" where
  "ins_change_stitching_offset mem in_trailer_hdr in_trailer_hdr_size new_offset =
     (case ins_decode_trailer_specific_header mem in_trailer_hdr in_trailer_hdr_size [] of
        Inl Undefined \<Rightarrow> Inl Undefined
      | Inl (Failure c) \<Rightarrow> Inl (Failure (- 3))
      | Inr dec \<Rightarrow>
          let spec_hdr_elements = out_hdr_elements dec;
              stitching_offset_current_size = find_offset_size spec_hdr_elements;
              new_offset_size = strlen_int new_offset;
              new_size = new_header_size in_trailer_hdr_size stitching_offset_current_size
                           new_offset_size
          in if new_offset_size < 0 \<or> new_size < 0 \<or> new_size > 2147483647
             then Inl Undefined
             else
               (case copy_tags mem (c_string new_offset) new_offset_size spec_hdr_elements
                       (replicate (nat new_size) 0) 0 of
                  None \<Rightarrow> Inl Undefined
                | Some (b1, pos1) \<Rightarrow>
                    (case (if stitching_offset_current_size = 0
                           then add_offset_tag (c_string new_offset) new_offset_size b1 pos1
                           else Some (b1, pos1)) of
                       None \<Rightarrow> Inl Undefined
                     | Some (b2, pos2) \<Rightarrow>
                         if out_tail_size dec < 0 then Inl Undefined
                         else
                           (case peek_n mem (out_tail_ptr dec) (nat (out_tail_size dec)) of
                              None \<Rightarrow> Inl Undefined
                            | Some tail \<Rightarrow>
                                (case poke b2 pos2 tail of
                                   None \<Rightarrow> Inl Undefined
                                 | Some b3 \<Rightarrow> Inr (b3, new_size))))))"

section \<open>The rewrite driver\<close>

text \<open>The loop over the decoded entries that rebuilds the payload of every entry of type
  \<open>0x0101\<close>; the state is the last rebuilt buffer with its size, \<open>None\<close> while the two
  variables are uninitialised.\<close>

fun change_entries ::
  "byte list \<Rightarrow> byte list \<Rightarrow> InsTrailerEntryHeaderInfoType list \<Rightarrow>
   (byte list \<times> int) option \<Rightarrow> error + (byte list \<times> int) option" where
  "change_entries trailer_data new_offset [] st = Inr st"
| "change_entries trailer_data new_offset (e # es) st =
     (if entry_type (entry_hdr e) = 0x0101 then
        (case ins_change_stitching_offset trailer_data (uint (trailer_offset_to_data e))
                (sint (entry_length (entry_hdr e))) new_offset of
           Inl Undefined \<Rightarrow> Inl Undefined
         | Inl (Failure c) \<Rightarrow> Inl (Failure (- 7))
         | Inr r \<Rightarrow> change_entries trailer_data new_offset es (Some r))
      else change_entries trailer_data new_offset es st)"

text \<open>
  The loop that copies the media data in pieces of at most \<open>kCopyBufferSize\<close> bytes. The
  result is the \<open>error\<close> flag and the output written so far. \<open>write_pos\<close> is an \<open>int\<close>: leaving
  its range is \<open>Undefined\<close>. \<open>bytes_to_copy\<close> is the remaining length cut to 32 bits, and the
  comparison with \<open>sizeof(copy_buffer)\<close> is unsigned. A piece of 0 bytes makes no progress,
  so the loop is a partial function.
\<close>

partial_function (option) copy_media ::
  "byte list \<Rightarrow> nat \<Rightarrow> int \<Rightarrow> int \<Rightarrow> int \<Rightarrow> byte list \<Rightarrow> (error + (bool \<times> byte list)) option"
  where
  "copy_media file cap media_len file_pos write_pos out =
     (if write_pos < media_len then
        (let n = sint (word_of_int (media_len - write_pos) :: 32 word);
             bytes_to_copy = (if n < 0 \<or> n > kCopyBufferSize then kCopyBufferSize else n);
             copy_buffer = fread file file_pos (nat bytes_to_copy);
             out' = fwrite cap out copy_buffer
         in if int (length copy_buffer) \<noteq> bytes_to_copy then Some (Inr (True, out))
            else if int (length out' - length out) \<noteq> bytes_to_copy then Some (Inr (True, out'))
            else if write_pos + bytes_to_copy > 2147483647 then Some (Inl Undefined)
            else copy_media file cap media_len (file_pos + bytes_to_copy)
                   (write_pos + bytes_to_copy) out')
      else Some (Inr (False, out)))"

declare copy_media.simps [code]

text \<open>
  The loop that writes the entries, last decoded first. The results of \<open>fwrite\<close> are not
  looked at. \<open>total_new_trailer_size\<close> is kept modulo \<open>2 ^ 32\<close>, which is what the conversions
  between \<open>int\<close>, \<open>size_t\<close> and \<open>uint32_t\<close> leave of it in \<open>trailer_len\<close>.
\<close>

fun write_entries ::
  "byte list \<Rightarrow> byte list \<times> int \<Rightarrow> nat \<Rightarrow> InsTrailerEntryHeaderInfoType list \<Rightarrow>
   byte list \<Rightarrow> 32 word \<Rightarrow> (byte list \<times> 32 word) option" where
  "write_entries trailer_data new_spec cap [] out total_new_trailer_size =
     Some (out, total_new_trailer_size)"
| "write_entries trailer_data new_spec cap (e # es) out total_new_trailer_size =
     (if entry_type (entry_hdr e) = 0x0101 then
        (let new_length = word_of_int (snd new_spec) :: 32 word;
             out1 = fwrite cap out (take (nat (snd new_spec)) (fst new_spec));
             out2 = fwrite cap out1 (enc16 (entry_type (entry_hdr e)) @ enc32 new_length)
         in write_entries trailer_data new_spec cap es out2
              (total_new_trailer_size + (new_length + 6)))
      else
        (case peek_n trailer_data (uint (trailer_offset_to_data e))
                (unat (entry_length (entry_hdr e))) of
           None \<Rightarrow> None
         | Some payload \<Rightarrow>
             (let out1 = fwrite cap out payload;
                  out2 = fwrite cap out1
                           (enc16 (entry_type (entry_hdr e)) @ enc32 (entry_length (entry_hdr e)))
              in write_entries trailer_data new_spec cap es out2
                   (total_new_trailer_size + (entry_length (entry_hdr e) + 6)))))"

text \<open>The zero bytes between the entries and the trailer header, written one by one.\<close>

fun write_zero_padding :: "nat \<Rightarrow> nat \<Rightarrow> byte list \<Rightarrow> byte list" where
  "write_zero_padding cap 0 out = out"
| "write_zero_padding cap (Suc n) out = write_zero_padding cap n (fwrite cap out [0])"

text \<open>
  \<open>run_change_stitching_offset\<close>. The arguments are the content of the input file (\<open>None\<close>
  when it cannot be opened), the capacity of the output device (\<open>None\<close> when the output file
  cannot be created) and the new offset string. The result is the return code and the
  bytes of the output file, \<open>Undefined\<close> when the run leaves defined behaviour (freeing the
  never assigned \<open>new_spec_trailer_hdr\<close> is one such case), and \<open>None\<close> when it never ends.
\<close>

definition run_change_stitching_offset ::
  "byte list option \<Rightarrow> nat option \<Rightarrow> byte list \<Rightarrow> (error + (int \<times> byte list)) option" where
  "run_change_stitching_offset param_file_in param_file_out param_new_offset =
     (case param_file_in of
        None \<Rightarrow> Some (Inr (- 2, []))
      | Some file \<Rightarrow>
     (case ins_read_allocate_trailer file of
        Inl e \<Rightarrow> Some (Inr (- 3, []))
      | Inr (trailer_info, trailer_data) \<Rightarrow>
     (case ins_decode_trailer_data trailer_data trailer_info [] of
        None \<Rightarrow> None
      | Some (Inl Undefined) \<Rightarrow> Some (Inl Undefined)
      | Some (Inl (Failure c)) \<Rightarrow> Some (Inr (- 4, []))
      | Some (Inr trailer_hdr_infos) \<Rightarrow>
     (case change_entries trailer_data param_new_offset trailer_hdr_infos None of
        Inl Undefined \<Rightarrow> Some (Inl Undefined)
      | Inl (Failure c) \<Rightarrow> Some (Inr (c, []))
      | Inr None \<Rightarrow> Some (Inl Undefined)
      | Inr (Some new_spec) \<Rightarrow>
     (case param_file_out of
        None \<Rightarrow> Some (Inr (- 5, []))
      | Some cap \<Rightarrow>
     (case copy_media file cap (int (length file) - uint (trailer_len trailer_info)) 0 0 [] of
        None \<Rightarrow> None
      | Some (Inl e) \<Rightarrow> Some (Inl e)
      | Some (Inr (True, out)) \<Rightarrow> Some (Inr (- 6, out))
      | Some (Inr (False, out)) \<Rightarrow>
     (case write_entries trailer_data new_spec cap (rev trailer_hdr_infos) out 0 of
        None \<Rightarrow> Some (Inl Undefined)
      | Some (out1, total_new_trailer_size) \<Rightarrow>
          let zero_padding_size = kInsFileMinHeaderLength - kInsFileSignatureLength - 8;
              out2 = write_zero_padding cap zero_padding_size out1;
              new_trailer_hdr =
                \<lparr>trailer_len = total_new_trailer_size + word_of_nat kInsFileMinHeaderLength,
                 trailer_version = trailer_version trailer_info\<rparr>;
              out3 = fwrite cap out2
                       (enc32 (trailer_len new_trailer_hdr)
                        @ enc32 (trailer_version new_trailer_hdr));
              out4 = fwrite cap out3 kInsFileSignature
          in Some (Inr (0, out4)))))))))"

section \<open>The information mode\<close>

text \<open>
  \<open>run_show_info\<close> prints, for every entry of type \<open>0x0101\<close>, one line per tag of the vector
  \<open>spec_hdr_elements\<close>: type code, size, offset of the header, and the data bytes. The vector
  is not emptied between two entries. The model keeps these lines for a run that returns 0;
  the tag name and the other messages are left out.
\<close>

record tag_line =
  line_type_code :: byte
  line_size :: byte
  line_hdr_offset :: int
  line_data :: "byte list"

fun show_tags ::
  "byte list \<Rightarrow> InsSpecificDataTagHeaderInfoType list \<Rightarrow> tag_line list option" where
  "show_tags mem [] = Some []"
| "show_tags mem (e # es) =
     (case peek_n mem (tag_data e) (unat (data_size (tag_hdr e))) of
        None \<Rightarrow> None
      | Some d \<Rightarrow>
          (case show_tags mem es of
             None \<Rightarrow> None
           | Some ls \<Rightarrow>
               Some (\<lparr>line_type_code = type_code (tag_hdr e), line_size = data_size (tag_hdr e),
                      line_hdr_offset = hdr_offset e, line_data = d\<rparr> # ls)))"

fun show_entries ::
  "byte list \<Rightarrow> InsTrailerEntryHeaderInfoType list \<Rightarrow> InsSpecificDataTagHeaderInfoType list \<Rightarrow>
   tag_line list \<Rightarrow> error + tag_line list" where
  "show_entries trailer_data [] spec_hdr_elements printed = Inr printed"
| "show_entries trailer_data (e # es) spec_hdr_elements printed =
     (if entry_type (entry_hdr e) = 0x0101 then
        (case ins_decode_trailer_specific_header trailer_data (uint (trailer_offset_to_data e))
                (sint (entry_length (entry_hdr e))) spec_hdr_elements of
           Inl Undefined \<Rightarrow> Inl Undefined
         | Inl (Failure c) \<Rightarrow> Inl (Failure (- 3))
         | Inr dec \<Rightarrow>
             (case show_tags trailer_data (out_hdr_elements dec) of
                None \<Rightarrow> Inl Undefined
              | Some ls \<Rightarrow> show_entries trailer_data es (out_hdr_elements dec) (printed @ ls)))
      else show_entries trailer_data es spec_hdr_elements printed)"

definition run_show_info :: "byte list option \<Rightarrow> (error + (int \<times> tag_line list)) option" where
  "run_show_info param_file_in =
     (case param_file_in of
        None \<Rightarrow> Some (Inr (- 2, []))
      | Some file \<Rightarrow>
     (case ins_read_allocate_trailer file of
        Inl e \<Rightarrow> Some (Inr (- 3, []))
      | Inr (trailer_info, trailer_data) \<Rightarrow>
     (case ins_decode_trailer_data trailer_data trailer_info [] of
        None \<Rightarrow> None
      | Some (Inl Undefined) \<Rightarrow> Some (Inl Undefined)
      | Some (Inl (Failure c)) \<Rightarrow> Some (Inr (- 4, []))
      | Some (Inr trailer_hdr_infos) \<Rightarrow>
     (case show_entries trailer_data trailer_hdr_infos [] [] of
        Inl Undefined \<Rightarrow> Some (Inl Undefined)
      | Inl (Failure c) \<Rightarrow> Some (Inr (c, []))
      | Inr printed \<Rightarrow> Some (Inr (0, printed))))))"

section \<open>Notions used in the statements\<close>

text \<open>The bytes covered by a sequence of decoded tags: two header bytes and the declared
  data size for each.\<close>

fun tags_extent :: "InsSpecificDataTagHeaderInfoType list \<Rightarrow> int" where
  "tags_extent [] = 0"
| "tags_extent (e # es) = 2 + uint (data_size (tag_hdr e)) + tags_extent es"

text \<open>\<open>tags_at mem hdr_data position es\<close>: the records \<open>es\<close> describe tags that lie one after
  the other in \<open>mem\<close>, the first with its header at \<open>hdr_data + position\<close>.\<close>

fun tags_at ::
  "byte list \<Rightarrow> int \<Rightarrow> int \<Rightarrow> InsSpecificDataTagHeaderInfoType list \<Rightarrow> bool" where
  "tags_at mem hdr_data position [] = True"
| "tags_at mem hdr_data position (e # es) =
     (read_tag_hdr mem (hdr_data + position) = Some (tag_hdr e) \<and> hdr_offset e = position
      \<and> tag_data e = hdr_data + (position + 2)
      \<and> tags_at mem hdr_data (position + 2 + uint (data_size (tag_hdr e))) es)"

text \<open>The length that a sequence of decoded entries accounts for, as a natural number
  (no wrap-around): six header bytes and the declared length for each.\<close>

fun entries_size :: "InsTrailerEntryHeaderInfoType list \<Rightarrow> nat" where
  "entries_size [] = 0"
| "entries_size (e # es) = (6 + unat (entry_length (entry_hdr e))) + entries_size es"

subsection \<open>The layout of a well-formed file\<close>

text \<open>
  The layout of the file as the comments at the head of the source and the layout table of
  the specification give it. A tag is its type code and its value, an entry its type and its
  payload. In the file a tag is the type code, the size byte and the value; an entry is the
  payload followed by its six header bytes; the trailer is the entries, 32 zero bytes, the
  trailer header with the total length and the version, and the signature.
\<close>

type_synonym tag = "byte \<times> byte list"

type_synonym entry = "16 word \<times> byte list"

definition tag_bytes :: "tag \<Rightarrow> byte list" where
  "tag_bytes t = [fst t, word_of_nat (length (snd t))] @ snd t"

definition tags_bytes :: "tag list \<Rightarrow> byte list" where
  "tags_bytes ts = concat (map tag_bytes ts)"

definition entry_bytes :: "entry \<Rightarrow> byte list" where
  "entry_bytes e = snd e @ enc16 (fst e) @ enc32 (word_of_nat (length (snd e)))"

definition entries_bytes :: "entry list \<Rightarrow> byte list" where
  "entries_bytes es = concat (map entry_bytes es)"

definition trailer_bytes :: "entry list \<Rightarrow> 32 word \<Rightarrow> byte list" where
  "trailer_bytes es ver =
     entries_bytes es @ replicate 32 0
     @ enc32 (word_of_nat (length (entries_bytes es) + 72)) @ enc32 ver @ kInsFileSignature"

text \<open>The records that the two decoders produce for tags at \<open>hdr_data + position\<close> and for
  entries at offset \<open>off\<close> of the trailer buffer, and the lines printed for the tags.\<close>

fun tag_infos :: "int \<Rightarrow> int \<Rightarrow> tag list \<Rightarrow> InsSpecificDataTagHeaderInfoType list" where
  "tag_infos hdr_data position [] = []"
| "tag_infos hdr_data position (t # ts) =
     \<lparr>hdr_offset = position,
      tag_hdr = \<lparr>type_code = fst t, data_size = word_of_nat (length (snd t))\<rparr>,
      tag_data = hdr_data + (position + 2)\<rparr>
     # tag_infos hdr_data (position + 2 + int (length (snd t))) ts"

fun entry_infos :: "nat \<Rightarrow> entry list \<Rightarrow> InsTrailerEntryHeaderInfoType list" where
  "entry_infos off [] = []"
| "entry_infos off (e # es) =
     \<lparr>entry_hdr = \<lparr>entry_type = fst e, entry_length = word_of_nat (length (snd e))\<rparr>,
      trailer_offset_to_data = word_of_nat off\<rparr>
     # entry_infos (off + length (entry_bytes e)) es"

fun tag_lines :: "int \<Rightarrow> tag list \<Rightarrow> tag_line list" where
  "tag_lines position [] = []"
| "tag_lines position (t # ts) =
     \<lparr>line_type_code = fst t, line_size = word_of_nat (length (snd t)),
      line_hdr_offset = position, line_data = snd t\<rparr>
     # tag_lines (position + 2 + int (length (snd t))) ts"

text \<open>The tags with the value of every offset tag replaced, and the entries with the payload
  of every entry of type \<open>0x0101\<close> replaced.\<close>

definition new_tags :: "byte list \<Rightarrow> tag list \<Rightarrow> tag list" where
  "new_tags y ts =
     map (\<lambda>t. if fst t = kInsFileSpecificHeaderTagTypeOffset then (fst t, y) else t) ts"

definition new_entries :: "byte list \<Rightarrow> entry list \<Rightarrow> entry list" where
  "new_entries buf es = map (\<lambda>e. if fst e = 0x0101 then (fst e, buf) else e) es"

subsection \<open>What the rebuild loop writes\<close>

text \<open>The payload that the rebuild loop hands to \<open>fwrite\<close> for an entry, the bytes of all
  entries it writes (payload, then the six header bytes with the length of that payload), and
  the number of these bytes.\<close>

definition written_payload ::
  "byte list \<Rightarrow> byte list \<times> int \<Rightarrow> InsTrailerEntryHeaderInfoType \<Rightarrow> byte list" where
  "written_payload td new_spec e =
     (if entry_type (entry_hdr e) = 0x0101 then take (nat (snd new_spec)) (fst new_spec)
      else take (unat (entry_length (entry_hdr e))) (drop (nat (uint (trailer_offset_to_data e))) td))"

fun written_entries ::
  "byte list \<Rightarrow> byte list \<times> int \<Rightarrow> InsTrailerEntryHeaderInfoType list \<Rightarrow> byte list" where
  "written_entries td new_spec [] = []"
| "written_entries td new_spec (e # es) =
     written_payload td new_spec e @ enc16 (entry_type (entry_hdr e))
     @ enc32 (word_of_nat (length (written_payload td new_spec e)))
     @ written_entries td new_spec es"

fun written_size ::
  "byte list \<Rightarrow> byte list \<times> int \<Rightarrow> InsTrailerEntryHeaderInfoType list \<Rightarrow> nat" where
  "written_size td new_spec [] = 0"
| "written_size td new_spec (e # es) =
     (length (written_payload td new_spec e) + 6) + written_size td new_spec es"

text \<open>A smallest file with a specific-info entry: no media data, one entry of type \<open>0x0101\<close>
  whose payload is the offset tag with the value \<open>a\<close>, trailer version 3.\<close>

definition small_file :: "byte list" where
  "small_file = [0x2A, 0x01, 0x61] @ [0x01, 0x01, 3, 0, 0, 0] @ replicate 32 0
                @ [81, 0, 0, 0, 3, 0, 0, 0] @ kInsFileSignature"

text \<open>A file of 83 bytes that is all trailer: two entry headers that overlap in one byte, the
  padding, the trailer header with \<open>trailer_len = 83\<close> and version 3, and the signature. The
  entry next to the padding declares the length \<open>0xFFFFFFFF\<close>.\<close>

definition wrapping_trailer :: "byte list" where
  "wrapping_trailer = [7, 7, 0, 0, 0, 0, 9, 0xFF, 0xFF, 0xFF, 0xFF] @ replicate 32 0
                      @ [83, 0, 0, 0, 3, 0, 0, 0] @ kInsFileSignature"

section \<open>Auxiliary facts\<close>

lemma kMaxTagsCount_Suc: "kMaxTagsCount = Suc (Suc (Suc (Suc 0)))"
  by (simp add: kMaxTagsCount_def)

lemmas decode_eval =
  ins_decode_trailer_specific_header_def kMaxTagsCount_Suc read_tag_hdr_def peek_n_def

lemma kInsFileSignature_bytes:
  "kInsFileSignature = [56, 100, 98, 52, 50, 100, 54, 57, 52, 99, 99, 99, 52, 49, 56, 55, 57,
     48, 101, 100, 102, 102, 52, 51, 57, 102, 101, 48, 50, 54, 98, 102]"
  by (simp add: kInsFileSignature_def)

lemma length_kInsFileSignature [simp]: "length kInsFileSignature = 32"
  by (simp add: kInsFileSignature_def)

subsection \<open>The tag loop\<close>

lemma decode_tags_layout:
  "decode_tags k mem hdr_data hdr_size position (hdr_size - position) cnt v = Inr r \<Longrightarrow>
   \<exists>new. out_hdr_elements r = v @ new \<and> hdr_elements_count r = cnt + int (length new)
     \<and> length new \<le> k \<and> tags_at mem hdr_data position new
     \<and> out_tail_ptr r = hdr_data + (position + tags_extent new)
     \<and> out_tail_size r = hdr_size - (position + tags_extent new)
     \<and> (length new < k \<longrightarrow> hdr_size \<le> position + tags_extent new)
     \<and> (0 < k \<longrightarrow> new \<noteq> [])"
proof (induction k arbitrary: position cnt v)
  case 0
  then show ?case by auto
next
  case (Suc k)
  from Suc.prems obtain th where th: "read_tag_hdr mem (hdr_data + position) = Some th"
    by (auto split: option.splits)
  from Suc.prems th have le: "uint (data_size th) \<le> hdr_size - position"
    by (auto split: if_splits)
  let ?e = "\<lparr>hdr_offset = position, tag_hdr = th, tag_data = hdr_data + (position + 2)\<rparr>"
  let ?p = "position + 2 + uint (data_size th)"
  show ?case
  proof (cases "hdr_size \<le> ?p")
    case True
    with Suc.prems th le have "r = \<lparr>hdr_elements_count = cnt + 1, out_hdr_elements = v @ [?e],
         out_tail_ptr = hdr_data + ?p, out_tail_size = hdr_size - ?p\<rparr>"
      by (simp add: Let_def)
    with th True show ?thesis
      by (intro exI[of _ "[?e]"]) (simp add: add.assoc)
  next
    case False
    with Suc.prems th le
    have "decode_tags k mem hdr_data hdr_size ?p (hdr_size - ?p) (cnt + 1) (v @ [?e]) = Inr r"
      by (simp add: Let_def)
    from Suc.IH[OF this] obtain new where new:
      "out_hdr_elements r = (v @ [?e]) @ new" "hdr_elements_count r = cnt + 1 + int (length new)"
      "length new \<le> k" "tags_at mem hdr_data ?p new"
      "out_tail_ptr r = hdr_data + (?p + tags_extent new)"
      "out_tail_size r = hdr_size - (?p + tags_extent new)"
      "length new < k \<longrightarrow> hdr_size \<le> ?p + tags_extent new"
      by blast
    with th show ?thesis
      by (intro exI[of _ "?e # new"]) (simp add: add.assoc add.left_commute)
  qed
qed

lemma decode_layout:
  assumes "ins_decode_trailer_specific_header mem hdr_data hdr_size v = Inr r"
  shows "\<exists>new. out_hdr_elements r = v @ new \<and> hdr_elements_count r = int (length new)
     \<and> length new \<le> 4 \<and> new \<noteq> [] \<and> tags_at mem hdr_data 0 new
     \<and> out_tail_ptr r = hdr_data + tags_extent new
     \<and> out_tail_size r = hdr_size - tags_extent new
     \<and> (length new < 4 \<longrightarrow> hdr_size \<le> tags_extent new)"
proof -
  from assms have "decode_tags 4 mem hdr_data hdr_size 0 (hdr_size - 0) 0 v = Inr r"
    by (simp add: ins_decode_trailer_specific_header_def kMaxTagsCount_def)
  from decode_tags_layout[OF this] show ?thesis by auto
qed

subsection \<open>The entry walk\<close>

lemma entries_size_append: "entries_size (xs @ ys) = entries_size xs + entries_size ys"
  by (induction xs) auto

lemma find_trailer_headers_sum:
  assumes "find_trailer_headers td tlen pos v = Some y" and "y = Inr (p, es)"
  shows "\<exists>new. es = v @ new \<and> p = pos + word_of_nat (entries_size new)"
  using assms
proof (induction arbitrary: p es rule: find_trailer_headers.raw_induct[rotated 1, consumes 1])
  case (1 walk td tlen pos v res)
  show ?case
  proof (cases "pos < tlen")
    case False
    with 1(2,3) show ?thesis by simp
  next
    case True
    with 1(2,3) obtain h where h: "read_entry_hdr td (uint tlen - uint pos - 6) = Some h"
      by (auto split: option.splits)
    let ?e = "\<lparr>entry_hdr = h, trailer_offset_to_data = ucast (tlen - pos - entry_length h) - 6\<rparr>"
    from 1(2) True h have "walk td tlen (pos + (entry_length h + 6)) (v @ [?e]) = Some res"
      by simp
    from 1(1)[OF this 1(3)] obtain new where "es = (v @ [?e]) @ new"
      "p = pos + (entry_length h + 6) + word_of_nat (entries_size new)" by blast
    then show ?thesis
      by (intro exI[of _ "?e # new"]) (simp add: algebra_simps)
  qed
qed

lemma wrapping_trailer_walk:
  "find_trailer_headers wrapping_trailer 83 72 [] =
     Some (Inr (83, [\<lparr>entry_hdr = \<lparr>entry_type = 0x900, entry_length = 0xFFFFFFFF\<rparr>,
                       trailer_offset_to_data = 6\<rparr>,
                     \<lparr>entry_hdr = \<lparr>entry_type = 0x707, entry_length = 0\<rparr>,
                       trailer_offset_to_data = 0\<rparr>]))"
  by (simp add: wrapping_trailer_def find_trailer_headers.simps read_entry_hdr_def peek_n_def
      le16_def le32_def)

lemma wrapping_trailer_read:
  "ins_read_allocate_trailer wrapping_trailer =
     Inr (\<lparr>trailer_len = 83, trailer_version = 3\<rparr>, wrapping_trailer)"
  by (simp add: wrapping_trailer_def ins_read_allocate_trailer_def
      ins_find_and_read_minimal_header_def kInsFileSignature_bytes kInsFileMinHeaderLength_def
      kInsFileSignatureLength_def fseek_end_def fread_def le32_def)

subsection \<open>Words and little-endian fields\<close>

lemma length_enc16 [simp]: "length (enc16 w) = 2" by (simp add: enc16_def)
lemma length_enc32 [simp]: "length (enc32 w) = 4" by (simp add: enc32_def)

lemma le16_enc16 [simp]: "le16 (enc16 w @ bs) = w"
proof -
  have b: "unat w < 65536" using unsigned_less[of w, where 'a = nat] by simp
  have "unat (le16 (enc16 w @ bs)) = unat w"
    using b by (simp add: le16_def enc16_def unat_word_ariths unsigned_ucast_eq unat_div take_bit_eq_mod)
  then show ?thesis by (simp add: word_unat_eq_iff)
qed

lemma nat_bytes_split:
  "(n::nat) mod 256 + 256 * (n div 256 mod 256) + 65536 * (n div 65536 mod 256)
     + 16777216 * (n div 16777216) = n"
proof -
  have a: "n = n mod 256 + 256 * (n div 256)" by simp
  have b: "n div 256 = n div 256 mod 256 + 256 * (n div 256 div 256)" by simp
  have c: "n div 65536 = n div 65536 mod 256 + 256 * (n div 65536 div 256)" by simp
  have d: "n div 256 div 256 = n div 65536" by (simp add: div_mult2_eq[symmetric])
  have e: "n div 65536 div 256 = n div 16777216" by (simp add: div_mult2_eq[symmetric])
  from a b c d e show ?thesis by linarith
qed

lemma le32_enc32 [simp]: "le32 (enc32 w @ bs) = w"
proof -
  have b: "unat w < 4294967296" using unsigned_less[of w, where 'a = nat] by simp
  have "unat (le32 (enc32 w @ bs)) = unat w"
    using b by (simp add: le32_def enc32_def unat_word_ariths unsigned_ucast_eq unat_div take_bit_eq_mod nat_bytes_split)
  then show ?thesis by (simp add: word_unat_eq_iff)
qed

lemma uint_byte_of_nat: "n \<le> 255 \<Longrightarrow> uint (word_of_nat n :: byte) = int n"
  by (simp add: uint_word_of_int take_bit_eq_mod unsigned_of_nat)
lemma unat_byte_of_nat: "n \<le> 255 \<Longrightarrow> unat (word_of_nat n :: byte) = n"
  by (simp add: unsigned_of_nat take_bit_eq_mod)
lemma unat_32_of_nat: "n < 2 ^ 32 \<Longrightarrow> unat (word_of_nat n :: 32 word) = n"
  by (simp add: unsigned_of_nat take_bit_eq_mod)
lemma uint_32_of_nat: "n < 2 ^ 32 \<Longrightarrow> uint (word_of_nat n :: 32 word) = int n"
  by (simp add: unsigned_of_nat take_bit_eq_mod)
lemma sint_32_of_nat: "n < 2 ^ 31 \<Longrightarrow> sint (word_of_nat n :: 32 word) = int n"
proof -
  assume a: "n < 2 ^ 31"
  then have "uint (word_of_nat n :: 32 word) = int n"
    by (simp add: unsigned_of_nat take_bit_eq_mod)
  moreover from a have "int n < 2 ^ 31" by (metis of_nat_less_iff of_nat_numeral of_nat_power)
  ultimately show ?thesis
    by (simp add: sint_uint signed_take_bit_int_eq_self)
qed
lemma uint_64_of_nat: "n < 2 ^ 64 \<Longrightarrow> uint (word_of_nat n :: 64 word) = int n"
  by (simp add: unsigned_of_nat take_bit_eq_mod)
lemma ucast_32_64_of_nat: "n < 2 ^ 32 \<Longrightarrow> (ucast (word_of_nat n :: 32 word) :: 64 word) = word_of_nat n"
  by (simp add: word_unat_eq_iff unsigned_ucast_eq unsigned_of_nat take_bit_eq_mod)

subsection \<open>Decoding and rebuilding a well-formed payload\<close>

lemma tags_bytes_simps [simp]:
  "tags_bytes [] = []" "tags_bytes (t # ts) = tag_bytes t @ tags_bytes ts"
  "tags_bytes (xs @ ys) = tags_bytes xs @ tags_bytes ys"
  by (simp_all add: tags_bytes_def)

lemma length_tag_bytes [simp]: "length (tag_bytes t) = 2 + length (snd t)"
  by (simp add: tag_bytes_def)

lemma tags_bytes_Nil_iff [simp]: "tags_bytes ts = [] \<longleftrightarrow> ts = []"
  by (cases ts) (simp_all add: tag_bytes_def)

lemma peek_n_append: "peek_n (a @ b @ c) (int (length a)) (length b) = Some b"
  by (simp add: peek_n_def)

lemma read_tag_hdr_append:
  "read_tag_hdr (a @ x # y # c) (int (length a)) = Some \<lparr>type_code = x, data_size = y\<rparr>"
  by (simp add: read_tag_hdr_def peek_n_def)

lemma decode_tags_forward:
  assumes "\<forall>t \<in> set tags. length (snd t) \<le> 255"
    and "length tags \<le> k" and "tail \<noteq> [] \<longrightarrow> length tags = k" and "tags = [] \<longrightarrow> k = 0"
  shows "decode_tags k (pre @ dn @ tags_bytes tags @ tail @ post) (int (length pre))
           (int (length dn + length (tags_bytes tags) + length tail)) (int (length dn))
           (int (length dn + length (tags_bytes tags) + length tail) - int (length dn)) cnt v =
         Inr \<lparr>hdr_elements_count = cnt + int (length tags),
              out_hdr_elements = v @ tag_infos (int (length pre)) (int (length dn)) tags,
              out_tail_ptr = int (length pre) + (int (length dn) + int (length (tags_bytes tags))),
              out_tail_size = int (length tail)\<rparr>"
  using assms
proof (induction tags arbitrary: k dn cnt v)
  case Nil
  then show ?case by simp
next
  case (Cons t ts)
  from Cons.prems(2) obtain k' where k: "k = Suc k'" by (cases k) auto
  let ?mem = "pre @ dn @ tags_bytes (t # ts) @ tail @ post"
  let ?hs = "int (length dn + length (tags_bytes (t # ts)) + length tail)"
  let ?th = "\<lparr>type_code = fst t, data_size = word_of_nat (length (snd t)) :: byte\<rparr>"
  from Cons.prems(1) have len: "length (snd t) \<le> 255" by simp
  then have ds: "uint (word_of_nat (length (snd t)) :: byte) = int (length (snd t))"
    by (rule uint_byte_of_nat)
  have mem: "?mem = (pre @ dn) @ fst t # word_of_nat (length (snd t)) # (snd t @ tags_bytes ts @ tail @ post)"
    by (simp add: tag_bytes_def)
  have rd: "read_tag_hdr ?mem (int (length pre) + int (length dn)) = Some ?th"
    unfolding mem using read_tag_hdr_append[of "pre @ dn"] by simp
  show ?case
  proof (cases "ts = [] \<and> tail = []")
    case True
    then show ?thesis
      unfolding k using rd ds by (simp add: Let_def)
  next
    case False
    then have lt: "\<not> ?hs \<le> int (length dn) + 2 + int (length (snd t))"
      by (cases ts) (auto simp: tag_bytes_def)
    have mem': "?mem = pre @ (dn @ tag_bytes t) @ tags_bytes ts @ tail @ post"
      by simp
    have p1: "length ts \<le> k'" using Cons.prems(2) k by simp
    have p2: "tail \<noteq> [] \<longrightarrow> length ts = k'" using Cons.prems(3) k by simp
    have p3: "ts = [] \<longrightarrow> k' = 0" using False Cons.prems(3) k by auto
    have p0: "\<forall>t \<in> set ts. length (snd t) \<le> 255" using Cons.prems(1) by simp
    note IH = Cons.IH[OF p0 p1 p2 p3, of "dn @ tag_bytes t" "cnt + 1"
        "v @ [\<lparr>hdr_offset = int (length dn), tag_hdr = ?th,
              tag_data = int (length pre) + (int (length dn) + 2)\<rparr>]"]
    have "decode_tags k ?mem (int (length pre)) ?hs (int (length dn)) (?hs - int (length dn)) cnt v =
       decode_tags k' ?mem (int (length pre)) ?hs (int (length dn) + 2 + int (length (snd t)))
         (?hs - (int (length dn) + 2 + int (length (snd t)))) (cnt + 1)
         (v @ [\<lparr>hdr_offset = int (length dn), tag_hdr = ?th,
              tag_data = int (length pre) + (int (length dn) + 2)\<rparr>])"
      unfolding k using rd ds lt by (simp add: Let_def)
    also have "\<dots> = Inr \<lparr>hdr_elements_count = cnt + int (length (t # ts)),
              out_hdr_elements = v @ tag_infos (int (length pre)) (int (length dn)) (t # ts),
              out_tail_ptr = int (length pre) + (int (length dn) + int (length (tags_bytes (t # ts)))),
              out_tail_size = int (length tail)\<rparr>"
      using IH unfolding mem' by (simp add: algebra_simps)
    finally show ?thesis .
  qed
qed

lemma new_tags_simps [simp]:
  "new_tags y [] = []"
  "new_tags y (t # ts) =
     (if fst t = kInsFileSpecificHeaderTagTypeOffset then (fst t, y) else t) # new_tags y ts"
  "new_tags y (xs @ ys) = new_tags y xs @ new_tags y ys"
  by (simp_all add: new_tags_def)

lemma new_tags_none:
  "\<forall>t \<in> set ts. fst t \<noteq> kInsFileSpecificHeaderTagTypeOffset \<Longrightarrow> new_tags y ts = ts"
  by (induction ts) auto

lemma poke_zeros:
  "length bs \<le> r \<Longrightarrow>
   poke (a @ replicate r 0) (int (length a)) bs = Some (a @ bs @ replicate (r - length bs) 0)"
  by (simp add: poke_def)

lemma copy_tags_forward:
  assumes "\<forall>t \<in> set tags. length (snd t) \<le> 255"
    and "length (tags_bytes (new_tags y tags)) \<le> r"
  shows "copy_tags (pre @ dn @ tags_bytes tags @ rest) y (int (length y))
           (tag_infos (int (length pre)) (int (length dn)) tags)
           (bpre @ replicate r 0) (int (length bpre)) =
         Some (bpre @ tags_bytes (new_tags y tags)
                 @ replicate (r - length (tags_bytes (new_tags y tags))) 0,
               int (length bpre + length (tags_bytes (new_tags y tags))))"
  using assms
proof (induction tags arbitrary: dn bpre r)
  case Nil
  then show ?case by simp
next
  case (Cons t ts)
  let ?mem = "pre @ dn @ tags_bytes (t # ts) @ rest"
  let ?t' = "if fst t = kInsFileSpecificHeaderTagTypeOffset then (fst t, y) else t"
  from Cons.prems(1) have len: "length (snd t) \<le> 255" by simp
  have p0: "\<forall>t \<in> set ts. length (snd t) \<le> 255" using Cons.prems(1) by simp
  have r: "length (tag_bytes ?t') + length (tags_bytes (new_tags y ts)) \<le> r"
    using Cons.prems(2) by simp
  then have p1: "length (tags_bytes (new_tags y ts)) \<le> r - length (tag_bytes ?t')" by simp
  have mem': "?mem = pre @ (dn @ tag_bytes t) @ tags_bytes ts @ rest" by simp
  note IH = Cons.IH[OF p0 p1, of "dn @ tag_bytes t" "bpre @ tag_bytes ?t'"]
  show ?case
  proof (cases "fst t = kInsFileSpecificHeaderTagTypeOffset")
    case True
    let ?h = "[fst t, word_of_nat (length y) :: byte]"
    from r True have r2: "2 + length y \<le> r" by simp
    then have k1: "poke (bpre @ replicate r 0) (int (length bpre)) ?h =
        Some (bpre @ ?h @ replicate (r - 2) 0)"
      using poke_zeros[of ?h r bpre] by simp
    from r2 have k2: "poke (bpre @ ?h @ replicate (r - 2) 0) (int (length bpre) + 2) y =
        Some (bpre @ ?h @ y @ replicate (r - 2 - length y) 0)"
      using poke_zeros[of y "r - 2" "bpre @ ?h"] by (simp add: add.commute)
    have "copy_tags ?mem y (int (length y))
           (tag_infos (int (length pre)) (int (length dn)) (t # ts))
           (bpre @ replicate r 0) (int (length bpre)) =
          copy_tags ?mem y (int (length y))
           (tag_infos (int (length pre)) (int (length dn) + 2 + int (length (snd t))) ts)
           (bpre @ ?h @ y @ replicate (r - 2 - length y) 0)
           (int (length bpre) + 2 + int (length y))"
      using True k1 k2 by simp
    also have "\<dots> = Some (bpre @ tags_bytes (new_tags y (t # ts))
                 @ replicate (r - length (tags_bytes (new_tags y (t # ts)))) 0,
               int (length bpre + length (tags_bytes (new_tags y (t # ts)))))"
      using IH True unfolding mem' by (simp add: tag_bytes_def algebra_simps)
    finally show ?thesis .
  next
    case False
    let ?h = "[fst t, word_of_nat (length (snd t)) :: byte]"
    from r False have r2: "2 + length (snd t) \<le> r" by simp
    then have k1: "poke (bpre @ replicate r 0) (int (length bpre)) ?h =
        Some (bpre @ ?h @ replicate (r - 2) 0)"
      using poke_zeros[of ?h r bpre] by simp
    from r2 have k2: "poke (bpre @ ?h @ replicate (r - 2) 0) (int (length bpre) + 2) (snd t) =
        Some (bpre @ ?h @ snd t @ replicate (r - 2 - length (snd t)) 0)"
      using poke_zeros[of "snd t" "r - 2" "bpre @ ?h"] by (simp add: add.commute)
    have "?mem = (pre @ dn @ ?h) @ snd t @ (tags_bytes ts @ rest)"
      by (simp add: tag_bytes_def)
    then have k3: "peek_n ?mem (int (length pre) + (int (length dn) + 2)) (length (snd t)) = Some (snd t)"
      using peek_n_append[of "pre @ dn @ ?h" "snd t" "tags_bytes ts @ rest"] by (simp add: algebra_simps)
    have "copy_tags ?mem y (int (length y))
           (tag_infos (int (length pre)) (int (length dn)) (t # ts))
           (bpre @ replicate r 0) (int (length bpre)) =
          copy_tags ?mem y (int (length y))
           (tag_infos (int (length pre)) (int (length dn) + 2 + int (length (snd t))) ts)
           (bpre @ ?h @ snd t @ replicate (r - 2 - length (snd t)) 0)
           (int (length bpre) + 2 + int (length (snd t)))"
      using False k1 k2 k3 len by (simp add: unat_byte_of_nat uint_byte_of_nat)
    also have "\<dots> = Some (bpre @ tags_bytes (new_tags y (t # ts))
                 @ replicate (r - length (tags_bytes (new_tags y (t # ts)))) 0,
               int (length bpre + length (tags_bytes (new_tags y (t # ts)))))"
      using IH False unfolding mem' by (simp add: tag_bytes_def algebra_simps)
    finally show ?thesis .
  qed
qed

lemma find_offset_size_forward:
  assumes "\<forall>t \<in> set ts1. fst t \<noteq> kInsFileSpecificHeaderTagTypeOffset" and "length x \<le> 255"
  shows "find_offset_size (tag_infos hdp p (ts1 @ (kInsFileSpecificHeaderTagTypeOffset, x) # ts2))
           = int (length x)"
  using assms
  by (induction ts1 arbitrary: p) (simp_all add: uint_byte_of_nat)

lemma ins_change_forward:
  assumes tags_def: "tags = ts1 @ (kInsFileSpecificHeaderTagTypeOffset, x) # ts2"
    and tags'_def: "tags' = ts1 @ (kInsFileSpecificHeaderTagTypeOffset, y) # ts2"
    and n1: "\<forall>t \<in> set ts1. fst t \<noteq> kInsFileSpecificHeaderTagTypeOffset"
    and n2: "\<forall>t \<in> set ts2. fst t \<noteq> kInsFileSpecificHeaderTagTypeOffset"
    and x: "x \<noteq> []"
    and small: "\<forall>t \<in> set tags. length (snd t) \<le> 255"
    and four: "length tags \<le> 4" and tl: "tail \<noteq> [] \<longrightarrow> length tags = 4"
    and y: "c_string new_offset = y"
    and bound: "length (tags_bytes tags' @ tail) < 2 ^ 31"
  shows "ins_change_stitching_offset (pre @ tags_bytes tags @ tail @ post) (int (length pre))
           (int (length (tags_bytes tags @ tail))) new_offset =
         Inr (tags_bytes tags' @ tail, int (length (tags_bytes tags' @ tail)))"
proof -
  let ?mem = "pre @ tags_bytes tags @ tail @ post"
  let ?hs = "int (length (tags_bytes tags @ tail))"
  have ne: "tags \<noteq> []" by (simp add: tags_def)
  have xs: "length x \<le> 255" using small by (simp add: tags_def)
  have dec: "ins_decode_trailer_specific_header ?mem (int (length pre)) ?hs [] =
      Inr \<lparr>hdr_elements_count = int (length tags),
           out_hdr_elements = tag_infos (int (length pre)) 0 tags,
           out_tail_ptr = int (length pre) + int (length (tags_bytes tags)),
           out_tail_size = int (length tail)\<rparr>"
    using decode_tags_forward[OF small, of 4 tail pre "[]" post 0 "[]"] four tl ne
    by (simp add: ins_decode_trailer_specific_header_def kMaxTagsCount_def)
  have cur: "find_offset_size (tag_infos (int (length pre)) 0 tags) = int (length x)"
    unfolding tags_def by (rule find_offset_size_forward[OF n1 xs])
  have nt: "new_tags y tags = tags'"
    by (simp add: tags_def tags'_def new_tags_none[OF n1] new_tags_none[OF n2])
  have ylen: "length y < 2 ^ 31" using bound by (simp add: tags'_def tag_bytes_def)
  have sl: "strlen_int new_offset = int (length y)"
    using y ylen by (simp add: strlen_int_def sint_32_of_nat)
  have sz: "int (length (tags_bytes tags' @ tail)) = ?hs - int (length x) + int (length y)"
    by (simp add: tags_def tags'_def tag_bytes_def)
  then have nhs: "new_header_size ?hs (int (length x)) (int (length y)) =
      int (length (tags_bytes tags' @ tail))"
    by (simp add: new_header_size_def)
  have b31: "int (length (tags_bytes tags' @ tail)) \<le> 2147483647"
  proof -
    from bound have "int (length (tags_bytes tags' @ tail)) < 2 ^ 31"
      by (metis of_nat_less_iff of_nat_numeral of_nat_power)
    then show ?thesis by simp
  qed
  have cp: "copy_tags ?mem y (int (length y)) (tag_infos (int (length pre)) 0 tags)
              (replicate (length (tags_bytes tags' @ tail)) 0) 0 =
            Some (tags_bytes tags' @ replicate (length tail) 0, int (length (tags_bytes tags')))"
    using copy_tags_forward[OF small, of y "length (tags_bytes tags' @ tail)" pre "[]"
        "tail @ post" "[]"] nt
    by simp
  have tailrd: "peek_n ?mem (int (length pre) + int (length (tags_bytes tags))) (length tail) = Some tail"
    using peek_n_append[of "pre @ tags_bytes tags" tail post] by simp
  have pk: "poke (tags_bytes tags' @ replicate (length tail) 0) (int (length (tags_bytes tags'))) tail
      = Some (tags_bytes tags' @ tail)"
    using poke_zeros[of tail "length tail" "tags_bytes tags'"] by simp
  from x have xne: "int (length x) \<noteq> 0" by simp
  show ?thesis
    unfolding ins_change_stitching_offset_def dec
    using cur sl nhs b31 cp tailrd pk xne y
    by (simp add: Let_def del: length_append)
qed

subsection \<open>Reading and decoding a well-formed trailer\<close>

lemma entries_bytes_simps [simp]:
  "entries_bytes [] = []" "entries_bytes (e # es) = entry_bytes e @ entries_bytes es"
  "entries_bytes (xs @ ys) = entries_bytes xs @ entries_bytes ys"
  by (simp_all add: entries_bytes_def)

lemma length_entry_bytes [simp]: "length (entry_bytes e) = length (snd e) + 6"
  by (simp add: entry_bytes_def)

lemma length_trailer_bytes [simp]:
  "length (trailer_bytes es ver) = length (entries_bytes es) + 72"
  by (simp add: trailer_bytes_def)

lemma entry_infos_append:
  "entry_infos off (xs @ ys) = entry_infos off xs @ entry_infos (off + length (entries_bytes xs)) ys"
  by (induction xs arbitrary: off) (simp_all add: add.assoc)

lemma le16_enc16' [simp]: "le16 (enc16 w) = w"
  using le16_enc16[of w "[]"] by simp

lemma le32_enc32' [simp]: "le32 (enc32 w) = w"
  using le32_enc32[of w "[]"] by simp

lemma read_entry_hdr_append:
  "read_entry_hdr (a @ enc16 t @ enc32 l @ c) (int (length a)) =
     Some \<lparr>entry_type = t, entry_length = l\<rparr>"
  using peek_n_append[of a "enc16 t @ enc32 l" c]
  by (simp add: read_entry_hdr_def)

lemma sint_neg_32_of_nat:
  assumes "n < 2 ^ 31"
  shows "sint (- (word_of_nat n :: 32 word)) = - int n"
proof -
  from assms have "int n < 2 ^ 31" by (metis of_nat_less_iff of_nat_numeral of_nat_power)
  then have "signed_take_bit 31 (- int n) = - int n"
    by (intro signed_take_bit_int_eq_self) simp_all
  moreover have "- (word_of_nat n :: 32 word) = word_of_int (- int n)" by simp
  ultimately show ?thesis by (simp only: sint_sbintrunc') simp
qed

lemma find_trailer_headers_forward:
  assumes "length (pre @ entries_bytes es @ post) < 2 ^ 32"
  shows "find_trailer_headers (pre @ entries_bytes es @ post)
           (word_of_nat (length (pre @ entries_bytes es @ post))) (word_of_nat (length post)) v
       = find_trailer_headers (pre @ entries_bytes es @ post)
           (word_of_nat (length (pre @ entries_bytes es @ post)))
           (word_of_nat (length post + length (entries_bytes es)))
           (v @ rev (entry_infos (length pre) es))"
  using assms
proof (induction es arbitrary: post v rule: rev_induct)
  case Nil
  then show ?case by simp
next
  case (snoc e es)
  let ?td = "pre @ entries_bytes (es @ [e]) @ post"
  let ?N = "length ?td"
  let ?tlen = "word_of_nat ?N :: 32 word"
  let ?len = "word_of_nat (length (snd e)) :: 32 word"
  let ?info = "\<lparr>entry_hdr = \<lparr>entry_type = fst e, entry_length = ?len\<rparr>,
                trailer_offset_to_data = word_of_nat (length pre + length (entries_bytes es))\<rparr>"
  from snoc.prems have N: "?N < 2 ^ 32" .
  then have uN: "unat ?tlen = ?N" by (rule unat_32_of_nat)
  have pl: "length post < ?N" by simp
  with N have up: "unat (word_of_nat (length post) :: 32 word) = length post"
    by (intro unat_32_of_nat) simp
  have lt: "(word_of_nat (length post) :: 32 word) < ?tlen"
    unfolding word_less_nat_alt uN up using pl .
  have td: "?td = (pre @ entries_bytes es @ snd e) @ enc16 (fst e) @ enc32 ?len @ post"
    by (simp add: entry_bytes_def)
  have idx: "uint ?tlen - uint (word_of_nat (length post) :: 32 word) - 6
      = int (length (pre @ entries_bytes es @ snd e))"
    using uN up by (simp add: uint_nat)
  have rd: "read_entry_hdr ?td (uint ?tlen - uint (word_of_nat (length post) :: 32 word) - 6)
      = Some \<lparr>entry_type = fst e, entry_length = ?len\<rparr>"
    unfolding idx unfolding td by (rule read_entry_hdr_append)
  have off32: "?tlen - word_of_nat (length post) - ?len
      = (word_of_nat (length pre + length (entries_bytes es) + 6) :: 32 word)"
    by simp
  have "length pre + length (entries_bytes es) + 6 < 2 ^ 32" using N by simp
  then have "(ucast (word_of_nat (length pre + length (entries_bytes es) + 6) :: 32 word) :: 64 word)
      = word_of_nat (length pre + length (entries_bytes es) + 6)"
    by (rule ucast_32_64_of_nat)
  moreover have "(word_of_nat (length pre + length (entries_bytes es) + 6) :: 64 word) - 6
      = word_of_nat (length pre + length (entries_bytes es))"
    by simp
  ultimately have off: "(ucast (?tlen - word_of_nat (length post) - ?len) :: 64 word) - 6
      = word_of_nat (length pre + length (entries_bytes es))"
    unfolding off32 by (simp only:)
  have pos': "(word_of_nat (length post) :: 32 word) + (?len + 6)
      = word_of_nat (length (entry_bytes e @ post))"
    by simp
  have step: "find_trailer_headers ?td ?tlen (word_of_nat (length post)) v =
      find_trailer_headers ?td ?tlen (word_of_nat (length (entry_bytes e @ post))) (v @ [?info])"
    by (subst find_trailer_headers.simps) (simp only: lt rd off pos' if_True option.case
        InsFileTrailerEntryHeaderType.simps)
  have td2: "?td = pre @ entries_bytes es @ (entry_bytes e @ post)" by simp
  from snoc.prems have N2: "length (pre @ entries_bytes es @ (entry_bytes e @ post)) < 2 ^ 32"
    by simp
  note IH = snoc.IH[OF N2, of "v @ [?info]"]
  show ?case
    unfolding step unfolding td2 unfolding IH
    by (simp add: entry_infos_append add.commute add.left_commute)
qed

lemma trailer_read_forward:
  assumes "length (trailer_bytes es ver) < 2 ^ 31"
  shows "ins_read_allocate_trailer (media @ trailer_bytes es ver) =
     Inr (\<lparr>trailer_len = word_of_nat (length (trailer_bytes es ver)), trailer_version = ver\<rparr>,
          trailer_bytes es ver)"
proof -
  let ?file = "media @ trailer_bytes es ver"
  let ?L = "length (entries_bytes es) + 72"
  let ?min = "replicate 32 0 @ enc32 (word_of_nat ?L) @ enc32 ver @ kInsFileSignature"
  have f1: "?file = (media @ entries_bytes es @ replicate 32 0 @ enc32 (word_of_nat ?L) @ enc32 ver)
               @ kInsFileSignature"
    by (simp add: trailer_bytes_def)
  have f2: "?file = (media @ entries_bytes es) @ ?min"
    by (simp add: trailer_bytes_def)
  have len: "length ?file = length media + length (entries_bytes es) + 72" by simp
  have c1: "\<not> int (length ?file) < int kInsFileMinHeaderLength"
    by (simp add: kInsFileMinHeaderLength_def kInsFileSignatureLength_def)
  have p1: "fseek_end ?file (int (length ?file)) (- int kInsFileSignatureLength)
      = int (length ?file) - 32"
    by (simp add: fseek_end_def kInsFileSignatureLength_def)
  have sg: "fread ?file (int (length ?file) - 32) kInsFileSignatureLength = kInsFileSignature"
    unfolding fread_def kInsFileSignatureLength_def unfolding f1 by (simp add: nat_diff_distrib')
  have p2: "fseek_end ?file (int (length ?file) - 32 + int kInsFileSignatureLength)
      (- int kInsFileMinHeaderLength) = int (length ?file) - 72"
    by (simp add: fseek_end_def kInsFileMinHeaderLength_def kInsFileSignatureLength_def)
  have mn: "fread ?file (int (length ?file) - 72) kInsFileMinHeaderLength = ?min"
    unfolding fread_def kInsFileMinHeaderLength_def kInsFileSignatureLength_def unfolding f2
    by (simp add: nat_diff_distrib')
  have l1: "length kInsFileSignature = kInsFileSignatureLength"
    by (simp add: kInsFileSignatureLength_def)
  have l2: "length ?min = kInsFileMinHeaderLength"
    by (simp add: kInsFileMinHeaderLength_def kInsFileSignatureLength_def)
  have e: "int (length ?file) - 72 + int kInsFileMinHeaderLength = int (length ?file)"
    by (simp add: kInsFileMinHeaderLength_def kInsFileSignatureLength_def)
  have mh: "ins_find_and_read_minimal_header ?file = Inr (int (length ?file), ?min)"
    unfolding ins_find_and_read_minimal_header_def Let_def
    by (simp only: c1 p1 sg p2 mn l1 l2 e if_False simp_thms)
  from assms have L31: "?L < 2 ^ 31" by simp
  then have sn: "sint (- (word_of_nat ?L :: 32 word)) = - int ?L" by (rule sint_neg_32_of_nat)
  from L31 have "?L < 2 ^ 32" by simp
  then have un: "unat (word_of_nat ?L :: 32 word) = ?L" by (rule unat_32_of_nat)
  have ps: "fseek_end ?file (int (length ?file)) (- int ?L) = int (length ?file) - int ?L"
    by (simp add: fseek_end_def)
  have tr: "fread ?file (int (length ?file) - int ?L) ?L = trailer_bytes es ver"
    unfolding fread_def by (simp add: nat_diff_distrib')
  have d1: "drop (kInsFileMinHeaderLength - kInsFileSignatureLength - 8) ?min
      = enc32 (word_of_nat ?L) @ enc32 ver @ kInsFileSignature"
    by (simp add: kInsFileMinHeaderLength_def kInsFileSignatureLength_def)
  have d2: "drop 4 (enc32 (word_of_nat ?L :: 32 word) @ enc32 ver @ kInsFileSignature)
      = enc32 ver @ kInsFileSignature"
    by simp
  have lt: "length (trailer_bytes es ver) = ?L" by simp
  show ?thesis
    unfolding ins_read_allocate_trailer_def mh lt
    by (simp only: sum.case prod.case Let_def d1 d2 le32_enc32 InsFileTrailerHeaderType.simps
          sn un ps tr lt) simp
qed

lemma trailer_decode_forward:
  assumes "length (trailer_bytes es ver) < 2 ^ 32"
  shows "ins_decode_trailer_data (trailer_bytes es ver)
           \<lparr>trailer_len = word_of_nat (length (trailer_bytes es ver)), trailer_version = ver\<rparr> [] =
         Some (Inr (rev (entry_infos 0 es)))"
proof -
  let ?post = "replicate 32 0 @ enc32 (word_of_nat (length (entries_bytes es) + 72)) @ enc32 ver
               @ kInsFileSignature"
  let ?td = "[] @ entries_bytes es @ ?post"
  have td: "trailer_bytes es ver = ?td" by (simp add: trailer_bytes_def)
  have lp: "length ?post = 72" by simp
  from assms have N: "length ?td < 2 ^ 32" unfolding td .
  have "find_trailer_headers ?td (word_of_nat (length ?td)) (word_of_nat (length ?post)) [] =
        find_trailer_headers ?td (word_of_nat (length ?td))
          (word_of_nat (length ?post + length (entries_bytes es))) ([] @ rev (entry_infos (length ([]::byte list)) es))"
    by (rule find_trailer_headers_forward[OF N])
  also have "\<dots> = Some (Inr (word_of_nat (length ?td), rev (entry_infos 0 es)))"
    by (subst find_trailer_headers.simps) (simp add: add.commute)
  finally have w: "find_trailer_headers ?td (word_of_nat (length ?td)) 72 [] =
      Some (Inr (word_of_nat (length ?td), rev (entry_infos 0 es)))"
    unfolding lp by simp
  show ?thesis
    unfolding td ins_decode_trailer_data_def
    using w by (simp add: kInsFileMinHeaderLength_def kInsFileSignatureLength_def)
qed

subsection \<open>The loops of the driver on a well-formed file\<close>

lemma new_entries_simps [simp]:
  "new_entries buf [] = []"
  "new_entries buf (e # es) = (if fst e = 0x0101 then (fst e, buf) else e) # new_entries buf es"
  "new_entries buf (xs @ ys) = new_entries buf xs @ new_entries buf ys"
  by (simp_all add: new_entries_def)

lemma new_entries_none: "\<forall>e \<in> set es. fst e \<noteq> 0x0101 \<Longrightarrow> new_entries buf es = es"
  by (induction es) auto

lemma change_entries_skip:
  "\<forall>e \<in> set infos. entry_type (entry_hdr e) \<noteq> 0x0101 \<Longrightarrow>
   change_entries td new_offset infos st = Inr st"
  by (induction infos arbitrary: st) auto

lemma change_entries_append:
  "change_entries td new_offset (a @ b) st =
     (case change_entries td new_offset a st of
        Inl e \<Rightarrow> Inl e
      | Inr st' \<Rightarrow> change_entries td new_offset b st')"
  by (induction a arbitrary: st) (auto split: sum.splits error.splits)

lemma entry_infos_types:
  "\<forall>e \<in> set es. fst e \<noteq> t \<Longrightarrow> \<forall>i \<in> set (entry_infos off es). entry_type (entry_hdr i) \<noteq> t"
  by (induction es arbitrary: off) auto

lemma fwrite_fits: "length out + length bs \<le> cap \<Longrightarrow> fwrite cap out bs = out @ bs"
  by (simp add: fwrite_def)

lemma write_zero_padding_forward:
  "length out + n \<le> cap \<Longrightarrow> write_zero_padding cap n out = out @ replicate n 0"
proof (induction n arbitrary: out)
  case 0
  then show ?case by simp
next
  case (Suc n)
  then have "fwrite cap out [0] = out @ [0]" by (intro fwrite_fits) simp
  moreover from Suc.prems have "length (out @ [0]) + n \<le> cap" by simp
  ultimately show ?case using Suc.IH[of "out @ [0]"] by (simp add: replicate_append_same)
qed

lemma write_entries_forward:
  assumes "length (pre @ entries_bytes es @ post) < 2 ^ 32" and "length buf < 2 ^ 31"
    and "length out + length (entries_bytes (new_entries buf es)) \<le> cap"
  shows "write_entries (pre @ entries_bytes es @ post) (buf, int (length buf)) cap
           (entry_infos (length pre) es) out tot =
         Some (out @ entries_bytes (new_entries buf es),
               tot + word_of_nat (length (entries_bytes (new_entries buf es))))"
  using assms
proof (induction es arbitrary: pre out tot)
  case Nil
  then show ?case by simp
next
  case (Cons e es)
  let ?td = "pre @ entries_bytes (e # es) @ post"
  let ?e' = "if fst e = 0x0101 then (fst e, buf) else e"
  have td2: "?td = (pre @ entry_bytes e) @ entries_bytes es @ post" by simp
  from Cons.prems(1) have N2: "length ((pre @ entry_bytes e) @ entries_bytes es @ post) < 2 ^ 32"
    by simp
  from Cons.prems(3) have c2: "length (out @ entry_bytes ?e') + length (entries_bytes (new_entries buf es)) \<le> cap"
    by (simp split: if_splits)
  note IH = Cons.IH[OF N2 Cons.prems(2) c2]
  from Cons.prems(3) have w1: "fwrite cap out (snd ?e') = out @ snd ?e'"
    by (intro fwrite_fits) (simp split: if_splits)
  from Cons.prems(3) have w2: "fwrite cap (out @ snd ?e')
          (enc16 (fst e) @ enc32 (word_of_nat (length (snd ?e')))) =
        out @ entry_bytes ?e'"
    using fwrite_fits[of "out @ snd ?e'" "enc16 (fst e) @ enc32 (word_of_nat (length (snd ?e')))" cap]
    by (simp add: entry_bytes_def split: if_splits)
  show ?case
  proof (cases "fst e = 0x0101")
    case True
    have "write_entries ?td (buf, int (length buf)) cap (entry_infos (length pre) (e # es)) out tot =
       write_entries ?td (buf, int (length buf)) cap
         (entry_infos (length pre + length (entry_bytes e)) es) (out @ entry_bytes ?e')
         (tot + (word_of_nat (length buf) + 6))"
      using True w1 w2 by (simp add: Let_def)
    also have "\<dots> = Some (out @ entries_bytes (new_entries buf (e # es)),
               tot + word_of_nat (length (entries_bytes (new_entries buf (e # es)))))"
      using IH[of "tot + (word_of_nat (length buf) + 6)"] True unfolding td2
      by (simp add: algebra_simps)
    finally show ?thesis .
  next
    case False
    from Cons.prems(1) have "length pre < 2 ^ 64"
      by (simp add: order_less_trans[of _ "2 ^ 32" "2 ^ 64"])
    then have o: "uint (word_of_nat (length pre) :: 64 word) = int (length pre)"
      by (rule uint_64_of_nat)
    from Cons.prems(1) have "length (snd e) < 2 ^ 32" by simp
    then have l: "unat (word_of_nat (length (snd e)) :: 32 word) = length (snd e)"
      by (rule unat_32_of_nat)
    have "?td = pre @ snd e @ (enc16 (fst e) @ enc32 (word_of_nat (length (snd e)))
                 @ entries_bytes es @ post)"
      by (simp add: entry_bytes_def)
    then have pk: "peek_n ?td (int (length pre)) (length (snd e)) = Some (snd e)"
      using peek_n_append[of pre "snd e"] by simp
    have "write_entries ?td (buf, int (length buf)) cap (entry_infos (length pre) (e # es)) out tot =
       write_entries ?td (buf, int (length buf)) cap
         (entry_infos (length pre + length (entry_bytes e)) es) (out @ entry_bytes ?e')
         (tot + (word_of_nat (length (snd e)) + 6))"
      using False w1 w2 o l pk by (simp add: Let_def)
    also have "\<dots> = Some (out @ entries_bytes (new_entries buf (e # es)),
               tot + word_of_nat (length (entries_bytes (new_entries buf (e # es)))))"
      using IH[of "tot + (word_of_nat (length (snd e)) + 6)"] False unfolding td2
      by (simp add: algebra_simps)
    finally show ?thesis .
  qed
qed

lemma copy_media_forward:
  assumes "wp \<le> M" and "M \<le> length file" and "M < 2 ^ 31" and "length out + (M - wp) \<le> cap"
  shows "copy_media file cap (int M) (int wp) (int wp) out =
           Some (Inr (False, out @ take (M - wp) (drop wp file)))"
  using assms
proof (induction "M - wp" arbitrary: wp out rule: less_induct)
  case less
  show ?case
  proof (cases "wp < M")
    case False
    with less.prems show ?thesis by (subst copy_media.simps) simp
  next
    case True
    let ?r = "M - wp"
    define b where "b = (if ?r > 8192 then 8192 else ?r)"
    from less.prems(3) have r31: "?r < 2 ^ 31" by simp
    have "(word_of_int (int M - int wp) :: 32 word) = word_of_nat ?r" using True by simp
    then have n: "sint (word_of_int (int M - int wp) :: 32 word) = int ?r"
      by (simp only: sint_32_of_nat[OF r31])
    have btc: "(if int ?r < 0 \<or> int ?r > kCopyBufferSize then kCopyBufferSize else int ?r) = int b"
      by (simp add: kCopyBufferSize_def b_def)
    have bpos: "0 < b" "b \<le> ?r" using True by (auto simp: b_def)
    have rd: "fread file (int wp) b = take b (drop wp file)" by (simp add: fread_def)
    have lrd: "length (take b (drop wp file)) = b" using less.prems(2) bpos True by simp
    have "length out + b \<le> cap" using less.prems(4) bpos(2) by linarith
    then have wr: "fwrite cap out (take b (drop wp file)) = out @ take b (drop wp file)"
      by (intro fwrite_fits) (simp only: lrd)
    have nov: "\<not> int wp + int b > 2147483647"
    proof -
      have "wp + b \<le> M" using bpos True by simp
      with less.prems(3) have "wp + b < 2 ^ 31" by simp
      then have "int (wp + b) < 2 ^ 31" by (metis of_nat_less_iff of_nat_numeral of_nat_power)
      then show ?thesis by simp
    qed
    have step: "copy_media file cap (int M) (int wp) (int wp) out =
        copy_media file cap (int M) (int (wp + b)) (int (wp + b)) (out @ take b (drop wp file))"
      apply (subst copy_media.simps)
      apply (simp only: n btc Let_def nat_int rd wr)
      using True lrd nov apply (simp del: length_take)
      done
    have IH: "copy_media file cap (int M) (int (wp + b)) (int (wp + b)) (out @ take b (drop wp file))
        = Some (Inr (False, (out @ take b (drop wp file)) @ take (M - (wp + b)) (drop (wp + b) file)))"
    proof (rule less.hyps)
      show "M - (wp + b) < M - wp" using bpos True by simp
      show "wp + b \<le> M" using bpos True by simp
      show "M \<le> length file" by (rule less.prems(2))
      show "M < 2 ^ 31" by (rule less.prems(3))
      show "length (out @ take b (drop wp file)) + (M - (wp + b)) \<le> cap"
        using less.prems(4) bpos True lrd by (simp del: length_take)
    qed
    have "take b (drop wp file) @ take (M - (wp + b)) (drop (wp + b) file) = take ?r (drop wp file)"
      using bpos take_add[of b "?r - b" "drop wp file"] by (simp add: add.commute)
    then show ?thesis unfolding step IH by simp
  qed
qed

lemma change_entries_forward:
  assumes tags: "tags = ts1 @ (kInsFileSpecificHeaderTagTypeOffset, x) # ts2"
    and tags': "tags' = ts1 @ (kInsFileSpecificHeaderTagTypeOffset, y) # ts2"
    and n1: "\<forall>t \<in> set ts1. fst t \<noteq> kInsFileSpecificHeaderTagTypeOffset"
    and n2: "\<forall>t \<in> set ts2. fst t \<noteq> kInsFileSpecificHeaderTagTypeOffset"
    and x: "x \<noteq> []"
    and small: "\<forall>t \<in> set tags. length (snd t) \<le> 255"
    and four: "length tags \<le> 4" and tl: "tail \<noteq> [] \<longrightarrow> length tags = 4"
    and y: "c_string new_offset = y"
    and es: "es = es1 @ (0x0101, tags_bytes tags @ tail) # es2"
    and e1: "\<forall>e \<in> set es1. fst e \<noteq> 0x0101" and e2: "\<forall>e \<in> set es2. fst e \<noteq> 0x0101"
    and b1: "length (trailer_bytes es ver) < 2 ^ 31"
    and b2: "length (tags_bytes tags' @ tail) < 2 ^ 31"
  shows "change_entries (trailer_bytes es ver) new_offset (rev (entry_infos 0 es)) None =
           Inr (Some (tags_bytes tags' @ tail, int (length (tags_bytes tags' @ tail))))"
proof -
  let ?P = "tags_bytes tags @ tail"
  let ?e = "(0x0101 :: 16 word, ?P)"
  let ?td = "trailer_bytes es ver"
  let ?o1 = "length (entries_bytes es1)"
  let ?info = "\<lparr>entry_hdr = \<lparr>entry_type = 0x0101, entry_length = word_of_nat (length ?P)\<rparr>,
                trailer_offset_to_data = word_of_nat ?o1\<rparr>"
  have infos: "rev (entry_infos 0 es) =
      rev (entry_infos (?o1 + length (entry_bytes ?e)) es2) @ ?info # rev (entry_infos 0 es1)"
    unfolding es by (simp add: entry_infos_append)
  have s2: "change_entries ?td new_offset (rev (entry_infos (?o1 + length (entry_bytes ?e)) es2)) None
      = Inr None"
    using entry_infos_types[OF e2] by (intro change_entries_skip) simp
  have s1: "\<And>st. change_entries ?td new_offset (rev (entry_infos 0 es1)) st = Inr st"
    using entry_infos_types[OF e1] by (intro change_entries_skip) simp
  from b1 have o64: "?o1 < 2 ^ 64"
    unfolding es by (simp add: order_less_trans[of _ "2 ^ 31" "2 ^ 64"])
  have uo: "uint (word_of_nat ?o1 :: 64 word) = int ?o1" by (rule uint_64_of_nat[OF o64])
  from b1 have "length ?P < 2 ^ 31" unfolding es by simp
  then have sl: "sint (word_of_nat (length ?P) :: 32 word) = int (length ?P)"
    by (rule sint_32_of_nat)
  have td: "?td = entries_bytes es1 @ tags_bytes tags @ tail @
      (enc16 0x0101 @ enc32 (word_of_nat (length ?P)) @ entries_bytes es2 @ replicate 32 0
       @ enc32 (word_of_nat (length (entries_bytes es) + 72)) @ enc32 ver @ kInsFileSignature)"
    unfolding es by (simp add: trailer_bytes_def entry_bytes_def)
  have ch: "ins_change_stitching_offset ?td (int ?o1) (int (length ?P)) new_offset =
      Inr (tags_bytes tags' @ tail, int (length (tags_bytes tags' @ tail)))"
    unfolding td by (rule ins_change_forward[OF tags tags' n1 n2 x small four tl y b2])
  show ?thesis
    unfolding infos change_entries_append s2
    by (simp add: uo sl ch s1 del: length_append)
qed

lemma run_forward_gen:
  assumes ce: "change_entries (trailer_bytes es ver) new_offset (rev (entry_infos 0 es)) None =
                 Inr (Some (buf, int (length buf)))"
    and b1: "length (trailer_bytes es ver) < 2 ^ 31"
    and bP: "length buf < 2 ^ 31"
    and b3: "length media < 2 ^ 31"
    and cap: "length (media @ trailer_bytes (new_entries buf es) ver) \<le> cap"
  shows "run_change_stitching_offset (Some (media @ trailer_bytes es ver)) (Some cap) new_offset =
           Some (Inr (0, media @ trailer_bytes (new_entries buf es) ver))"
proof -
  let ?file = "media @ trailer_bytes es ver"
  let ?td = "trailer_bytes es ver"
  let ?ti = "\<lparr>trailer_len = word_of_nat (length ?td), trailer_version = ver\<rparr>"
  let ?es' = "new_entries buf es"
  let ?post = "replicate 32 0 @ enc32 (word_of_nat (length (entries_bytes es) + 72)) @ enc32 ver
               @ kInsFileSignature"
  have rd: "ins_read_allocate_trailer ?file = Inr (?ti, ?td)"
    by (rule trailer_read_forward[OF b1])
  from b1 have b1': "length ?td < 2 ^ 32" by (simp add: order_less_trans[of _ "2 ^ 31" "2 ^ 32"])
  have dc: "ins_decode_trailer_data ?td ?ti [] = Some (Inr (rev (entry_infos 0 es)))"
    by (rule trailer_decode_forward[OF b1'])
  have ul: "uint (word_of_nat (length ?td) :: 32 word) = int (length ?td)"
    by (rule uint_32_of_nat[OF b1'])
  have ml: "int (length ?file) - uint (word_of_nat (length ?td) :: 32 word) = int (length media)"
    using ul by simp
  from cap have "length ([]::byte list) + (length media - 0) \<le> cap" by simp
  with b3 copy_media_forward[of 0 "length media" ?file "[]" cap]
  have cm: "copy_media ?file cap (int (length media)) 0 0 [] = Some (Inr (False, media))"
    by simp
  have td: "?td = [] @ entries_bytes es @ ?post" by (simp add: trailer_bytes_def)
  from b1' have N: "length ([] @ entries_bytes es @ ?post) < 2 ^ 32" unfolding td .
  from cap have c1: "length media + length (entries_bytes ?es') \<le> cap"
    by simp
  have we: "write_entries ?td (buf, int (length buf)) cap (entry_infos 0 es) media 0 =
      Some (media @ entries_bytes ?es', word_of_nat (length (entries_bytes ?es')))"
    using write_entries_forward[OF N bP c1, of 0] unfolding td[symmetric] by simp
  let ?o1 = "media @ entries_bytes ?es'"
  from cap have "length ?o1 + 32 \<le> cap" by simp
  then have zp: "write_zero_padding cap 32 ?o1 = ?o1 @ replicate 32 0"
    by (rule write_zero_padding_forward)
  let ?h = "enc32 (word_of_nat (length (entries_bytes ?es')) + 72) @ enc32 ver"
  from cap have "length (?o1 @ replicate 32 0) + length ?h \<le> cap" by simp
  then have wh: "fwrite cap (?o1 @ replicate 32 0) ?h = (?o1 @ replicate 32 0) @ ?h"
    by (rule fwrite_fits)
  from cap have "length ((?o1 @ replicate 32 0) @ ?h) + length kInsFileSignature \<le> cap" by simp
  then have ws: "fwrite cap ((?o1 @ replicate 32 0) @ ?h) kInsFileSignature
      = ((?o1 @ replicate 32 0) @ ?h) @ kInsFileSignature"
    by (rule fwrite_fits)
  have fin: "((?o1 @ replicate 32 0) @ ?h) @ kInsFileSignature = media @ trailer_bytes ?es' ver"
    by (simp add: trailer_bytes_def)
  show ?thesis
    unfolding run_change_stitching_offset_def
    by (simp only: option.case rd sum.case prod.case dc ce ml cm rev_rev_ident we Let_def
          bool.case InsFileTrailerHeaderType.simps kInsFileMinHeaderLength_def
          kInsFileSignatureLength_def error.case)
       (simp add: zp wh ws fin del: length_append append_assoc)
qed

lemma run_undefined_gen:
  assumes ce: "change_entries (trailer_bytes es ver) new_offset (rev (entry_infos 0 es)) None =
                 Inl Undefined"
    and b1: "length (trailer_bytes es ver) < 2 ^ 31"
  shows "run_change_stitching_offset (Some (media @ trailer_bytes es ver)) param_file_out new_offset =
           Some (Inl Undefined)"
proof -
  let ?td = "trailer_bytes es ver"
  let ?ti = "\<lparr>trailer_len = word_of_nat (length ?td), trailer_version = ver\<rparr>"
  have rd: "ins_read_allocate_trailer (media @ ?td) = Inr (?ti, ?td)"
    by (rule trailer_read_forward[OF b1])
  from b1 have b1': "length ?td < 2 ^ 32" by (simp add: order_less_trans[of _ "2 ^ 31" "2 ^ 32"])
  have dc: "ins_decode_trailer_data ?td ?ti [] = Some (Inr (rev (entry_infos 0 es)))"
    by (rule trailer_decode_forward[OF b1'])
  show ?thesis
    unfolding run_change_stitching_offset_def
    by (simp only: option.case rd sum.case prod.case dc ce error.case)
qed

lemma run_forward:
  assumes tags: "tags = ts1 @ (kInsFileSpecificHeaderTagTypeOffset, x) # ts2"
    and tags': "tags' = ts1 @ (kInsFileSpecificHeaderTagTypeOffset, y) # ts2"
    and n1: "\<forall>t \<in> set ts1. fst t \<noteq> kInsFileSpecificHeaderTagTypeOffset"
    and n2: "\<forall>t \<in> set ts2. fst t \<noteq> kInsFileSpecificHeaderTagTypeOffset"
    and x: "x \<noteq> []"
    and small: "\<forall>t \<in> set tags. length (snd t) \<le> 255"
    and four: "length tags \<le> 4" and tl: "tail \<noteq> [] \<longrightarrow> length tags = 4"
    and y: "c_string new_offset = y"
    and es: "es = es1 @ (0x0101, tags_bytes tags @ tail) # es2"
    and es': "es' = es1 @ (0x0101, tags_bytes tags' @ tail) # es2"
    and e1: "\<forall>e \<in> set es1. fst e \<noteq> 0x0101" and e2: "\<forall>e \<in> set es2. fst e \<noteq> 0x0101"
    and b1: "length (trailer_bytes es ver) < 2 ^ 31"
    and b2: "length (trailer_bytes es' ver) < 2 ^ 31"
    and b3: "length media < 2 ^ 31"
    and cap: "length (media @ trailer_bytes es' ver) \<le> cap"
  shows "run_change_stitching_offset (Some (media @ trailer_bytes es ver)) (Some cap) new_offset =
           Some (Inr (0, media @ trailer_bytes es' ver))"
proof -
  let ?P' = "tags_bytes tags' @ tail"
  from b2 have bP: "length ?P' < 2 ^ 31" unfolding es' by simp
  have ce: "change_entries (trailer_bytes es ver) new_offset (rev (entry_infos 0 es)) None =
      Inr (Some (?P', int (length ?P')))"
    by (rule change_entries_forward[OF tags tags' n1 n2 x small four tl y es e1 e2 b1 bP])
  have ne: "new_entries ?P' es = es'"
    unfolding es es' by (simp add: new_entries_none[OF e1] new_entries_none[OF e2])
  from run_forward_gen[OF ce b1 bP b3, of cap] cap show ?thesis
    unfolding ne by simp
qed

subsection \<open>The information mode on a well-formed file\<close>

lemma decode_specific_forward:
  assumes small: "\<forall>t \<in> set tags. length (snd t) \<le> 255"
    and four: "length tags \<le> 4" and tl: "tail \<noteq> [] \<longrightarrow> length tags = 4"
    and ne: "tags \<noteq> []"
  shows "ins_decode_trailer_specific_header (pre @ tags_bytes tags @ tail @ post)
           (int (length pre)) (int (length (tags_bytes tags @ tail))) [] =
         Inr \<lparr>hdr_elements_count = int (length tags),
              out_hdr_elements = tag_infos (int (length pre)) 0 tags,
              out_tail_ptr = int (length pre) + int (length (tags_bytes tags)),
              out_tail_size = int (length tail)\<rparr>"
  using decode_tags_forward[OF small, of 4 tail pre "[]" post 0 "[]"] four tl ne
  by (simp add: ins_decode_trailer_specific_header_def kMaxTagsCount_def)

lemma show_tags_forward:
  assumes "\<forall>t \<in> set tags. length (snd t) \<le> 255"
  shows "show_tags (pre @ dn @ tags_bytes tags @ rest)
           (tag_infos (int (length pre)) (int (length dn)) tags) =
         Some (tag_lines (int (length dn)) tags)"
  using assms
proof (induction tags arbitrary: dn)
  case Nil
  then show ?case by simp
next
  case (Cons t ts)
  let ?mem = "pre @ dn @ tags_bytes (t # ts) @ rest"
  let ?h = "[fst t, word_of_nat (length (snd t)) :: byte]"
  from Cons.prems have len: "length (snd t) \<le> 255" by simp
  have p0: "\<forall>t \<in> set ts. length (snd t) \<le> 255" using Cons.prems by simp
  have "?mem = (pre @ dn @ ?h) @ snd t @ (tags_bytes ts @ rest)"
    by (simp add: tag_bytes_def)
  then have pk: "peek_n ?mem (int (length pre) + (int (length dn) + 2)) (length (snd t)) = Some (snd t)"
    using peek_n_append[of "pre @ dn @ ?h" "snd t" "tags_bytes ts @ rest"] by (simp add: algebra_simps)
  have mem': "?mem = pre @ (dn @ tag_bytes t) @ tags_bytes ts @ rest" by simp
  have IH: "show_tags ?mem (tag_infos (int (length pre)) (int (length dn) + 2 + int (length (snd t))) ts)
       = Some (tag_lines (int (length dn) + 2 + int (length (snd t))) ts)"
    using Cons.IH[OF p0, of "dn @ tag_bytes t"] unfolding mem' by (simp add: algebra_simps)
  show ?case
    using pk IH len by (simp add: unat_byte_of_nat)
qed

lemma show_entries_skip:
  "\<forall>e \<in> set a. entry_type (entry_hdr e) \<noteq> 0x0101 \<Longrightarrow>
   show_entries td (a @ b) v printed = show_entries td b v printed"
  by (induction a) auto

lemma run_show_forward:
  assumes small: "\<forall>t \<in> set tags. length (snd t) \<le> 255"
    and four: "length tags \<le> 4" and tl: "tail \<noteq> [] \<longrightarrow> length tags = 4"
    and ne: "tags \<noteq> []"
    and es: "es = es1 @ (0x0101, tags_bytes tags @ tail) # es2"
    and e1: "\<forall>e \<in> set es1. fst e \<noteq> 0x0101" and e2: "\<forall>e \<in> set es2. fst e \<noteq> 0x0101"
    and b1: "length (trailer_bytes es ver) < 2 ^ 31"
  shows "run_show_info (Some (media @ trailer_bytes es ver)) = Some (Inr (0, tag_lines 0 tags))"
proof -
  let ?P = "tags_bytes tags @ tail"
  let ?e = "(0x0101 :: 16 word, ?P)"
  let ?td = "trailer_bytes es ver"
  let ?ti = "\<lparr>trailer_len = word_of_nat (length ?td), trailer_version = ver\<rparr>"
  let ?o1 = "length (entries_bytes es1)"
  let ?info = "\<lparr>entry_hdr = \<lparr>entry_type = 0x0101, entry_length = word_of_nat (length ?P)\<rparr>,
                trailer_offset_to_data = word_of_nat ?o1\<rparr>"
  let ?post = "enc16 0x0101 @ enc32 (word_of_nat (length ?P)) @ entries_bytes es2 @ replicate 32 0
       @ enc32 (word_of_nat (length (entries_bytes es) + 72)) @ enc32 ver @ kInsFileSignature"
  have rd: "ins_read_allocate_trailer (media @ ?td) = Inr (?ti, ?td)"
    by (rule trailer_read_forward[OF b1])
  from b1 have b1': "length ?td < 2 ^ 32" by (simp add: order_less_trans[of _ "2 ^ 31" "2 ^ 32"])
  have dc: "ins_decode_trailer_data ?td ?ti [] = Some (Inr (rev (entry_infos 0 es)))"
    by (rule trailer_decode_forward[OF b1'])
  have infos: "rev (entry_infos 0 es) =
      rev (entry_infos (?o1 + length (entry_bytes ?e)) es2) @ ?info # rev (entry_infos 0 es1)"
    unfolding es by (simp add: entry_infos_append)
  from b1 have o64: "?o1 < 2 ^ 64"
    unfolding es by (simp add: order_less_trans[of _ "2 ^ 31" "2 ^ 64"])
  have uo: "uint (word_of_nat ?o1 :: 64 word) = int ?o1" by (rule uint_64_of_nat[OF o64])
  from b1 have "length ?P < 2 ^ 31" unfolding es by simp
  then have sl: "sint (word_of_nat (length ?P) :: 32 word) = int (length ?P)"
    by (rule sint_32_of_nat)
  have td: "?td = entries_bytes es1 @ tags_bytes tags @ tail @ ?post"
    unfolding es by (simp add: trailer_bytes_def entry_bytes_def)
  have dec: "ins_decode_trailer_specific_header ?td (int ?o1) (int (length ?P)) [] =
         Inr \<lparr>hdr_elements_count = int (length tags),
              out_hdr_elements = tag_infos (int ?o1) 0 tags,
              out_tail_ptr = int ?o1 + int (length (tags_bytes tags)),
              out_tail_size = int (length tail)\<rparr>"
    unfolding td by (rule decode_specific_forward[OF small four tl ne])
  have st: "show_tags ?td (tag_infos (int ?o1) 0 tags) = Some (tag_lines 0 tags)"
    unfolding td using show_tags_forward[OF small, of "entries_bytes es1" "[]" "tail @ ?post"]
    by simp
  have s1: "\<And>v pr. show_entries ?td (rev (entry_infos 0 es1)) v pr = Inr pr"
    using entry_infos_types[OF e1] show_entries_skip[of "rev (entry_infos 0 es1)" ?td "[]"]
    by simp
  have se: "show_entries ?td (rev (entry_infos 0 es)) [] [] = Inr (tag_lines 0 tags)"
    unfolding infos
    using entry_infos_types[OF e2]
    by (subst show_entries_skip) (simp_all add: uo sl dec st s1 del: length_append)
  show ?thesis
    unfolding run_show_info_def
    by (simp only: option.case rd sum.case prod.case dc se)
qed

lemma tag_lines_nth:
  "tag_lines p (ts1 @ t # ts2) ! length ts1 =
     \<lparr>line_type_code = fst t, line_size = word_of_nat (length (snd t)),
      line_hdr_offset = p + int (length (tags_bytes ts1)), line_data = snd t\<rparr>"
  by (induction ts1 arbitrary: p) (simp_all add: algebra_simps)

subsection \<open>Concrete payloads\<close>

lemmas layout_eval = trailer_bytes_def entries_bytes_def entry_bytes_def enc16_def enc32_def

lemma two_offsets_change:
  "change_entries (trailer_bytes [(0x0101, [0x2A, 1, 0x61, 0x2A, 1, 0x62])] 3) [0x61]
     (rev (entry_infos 0 [(0x0101, [0x2A, 1, 0x61, 0x2A, 1, 0x62])])) None =
   Inr (Some ([0x2A, 1, 0x61, 0x2A, 1, 0x61], int (length [0x2A, 1, 0x61, 0x2A, 1, 0x61 :: byte])))"
  by (simp add: layout_eval ins_change_stitching_offset_def decode_eval poke_def
      new_header_size_def strlen_int_def c_string_def kInsFileSpecificHeaderTagTypeOffset_def)

lemma empty_offset_change:
  "change_entries (trailer_bytes [(0x0101, [0x2A, 0])] 3) []
     (rev (entry_infos 0 [(0x0101, [0x2A, 0])])) None = Inl Undefined"
  by (simp add: layout_eval ins_change_stitching_offset_def decode_eval poke_def
      new_header_size_def strlen_int_def c_string_def kInsFileSpecificHeaderTagTypeOffset_def
      add_offset_tag_def)

lemma replicate_256_split:
  "replicate 256 (0x31 :: byte) =
     (0x31 # 0x31 # replicate 49 0x31) @ (0x31 # 0x31 # replicate 49 0x31)
     @ (0x31 # 0x31 # replicate 49 0x31) @ replicate 103 0x31"
proof -
  have s: "\<And>n. (0x31 :: byte) # 0x31 # replicate n 0x31 = replicate (n + 2) 0x31" by simp
  show ?thesis unfolding s by (simp add: replicate_add[symmetric])
qed

lemma long_offset_payload:
  "tags_bytes [(kInsFileSpecificHeaderTagTypeOffset, replicate 256 0x31)] @ [] =
   tags_bytes [(0x2A, []), (0x31, replicate 49 0x31), (0x31, replicate 49 0x31),
               (0x31, replicate 49 0x31)] @ replicate 103 0x31"
  by (simp add: tag_bytes_def kInsFileSpecificHeaderTagTypeOffset_def replicate_256_split)

subsection \<open>Complete writes\<close>

lemma poke_length: "poke m p bs = Some m' \<Longrightarrow> length m' = length m"
  by (auto simp: poke_def split: if_splits)

lemma copy_tags_length:
  "copy_tags mem y n es buf pos = Some (b', p') \<Longrightarrow> length b' = length buf"
proof (induction es arbitrary: buf pos)
  case Nil
  then show ?case by simp
next
  case (Cons e es)
  then show ?case
    by (auto split: if_splits option.splits dest!: poke_length)
qed

lemma add_offset_tag_length:
  "add_offset_tag y n buf pos = Some (b', p') \<Longrightarrow> length b' = length buf"
  by (auto simp: add_offset_tag_def split: option.splits dest!: poke_length)

lemma ins_change_length:
  assumes "ins_change_stitching_offset mem p hs new_offset = Inr (buf, n)"
  shows "length buf = nat n \<and> 0 \<le> n"
  using assms
  unfolding ins_change_stitching_offset_def Let_def
  by (auto split: sum.splits error.splits if_splits option.splits prod.splits
      dest!: poke_length copy_tags_length add_offset_tag_length)

lemma change_entries_length:
  assumes "change_entries td new_offset infos st = Inr (Some (buf, n))"
    and "\<forall>b0 n0. st = Some (b0, n0) \<longrightarrow> length b0 = nat n0 \<and> 0 \<le> n0"
  shows "length buf = nat n \<and> 0 \<le> n"
  using assms
proof (induction infos arbitrary: st)
  case Nil
  then show ?case by simp
next
  case (Cons e es)
  show ?case
  proof (cases "entry_type (entry_hdr e) = 0x0101")
    case False
    with Cons.prems have "change_entries td new_offset es st = Inr (Some (buf, n))" by simp
    from Cons.IH[OF this Cons.prems(2)] show ?thesis .
  next
    case True
    with Cons.prems(1) obtain r where
      r: "ins_change_stitching_offset td (uint (trailer_offset_to_data e))
            (sint (entry_length (entry_hdr e))) new_offset = Inr r"
      and rest: "change_entries td new_offset es (Some r) = Inr (Some (buf, n))"
      by (auto split: sum.splits error.splits)
    from ins_change_length[of _ _ _ _ "fst r" "snd r"] r
    have "\<forall>b0 n0. Some r = Some (b0, n0) \<longrightarrow> length b0 = nat n0 \<and> 0 \<le> n0" by auto
    from Cons.IH[OF rest this] show ?thesis .
  qed
qed

lemma fwrite_length_mono: "length out \<le> length (fwrite cap out bs)"
  by (simp add: fwrite_def)

lemma fwrite_complete: "length (fwrite cap out bs) < cap \<Longrightarrow> fwrite cap out bs = out @ bs"
  by (auto simp: fwrite_def min_def split: if_splits)

lemma write_zero_padding_mono: "length out \<le> length (write_zero_padding cap n out)"
proof (induction n arbitrary: out)
  case 0
  then show ?case by simp
next
  case (Suc n)
  have "length out \<le> length (fwrite cap out [0])" by (rule fwrite_length_mono)
  also have "\<dots> \<le> length (write_zero_padding cap n (fwrite cap out [0]))" by (rule Suc.IH)
  finally show ?case by simp
qed

lemma write_zero_padding_complete:
  "length (write_zero_padding cap n out) < cap \<Longrightarrow>
   write_zero_padding cap n out = out @ replicate n 0"
proof (induction n arbitrary: out)
  case 0
  then show ?case by simp
next
  case (Suc n)
  from Suc.prems have a: "length (write_zero_padding cap n (fwrite cap out [0])) < cap" by simp
  have "length (fwrite cap out [0]) \<le> length (write_zero_padding cap n (fwrite cap out [0]))"
    by (rule write_zero_padding_mono)
  with a have "fwrite cap out [0] = out @ [0]" by (intro fwrite_complete) simp
  with Suc.IH[OF a] show ?case by (simp add: replicate_append_same)
qed

lemma write_entries_mono:
  "write_entries td ns cap infos out tot = Some (out', tot') \<Longrightarrow> length out \<le> length out'"
proof (induction infos arbitrary: out tot)
  case Nil
  then show ?case by simp
next
  case (Cons e es)
  show ?case
  proof (cases "entry_type (entry_hdr e) = 0x0101")
    case True
    let ?o1 = "fwrite cap out (take (nat (snd ns)) (fst ns))"
    let ?o2 = "fwrite cap ?o1 (enc16 (entry_type (entry_hdr e)) @ enc32 (word_of_int (snd ns)))"
    from Cons.prems True have "write_entries td ns cap es ?o2
        (tot + (word_of_int (snd ns) + 6)) = Some (out', tot')"
      by (simp add: Let_def)
    from Cons.IH[OF this] fwrite_length_mono[of out cap] fwrite_length_mono[of ?o1 cap]
    show ?thesis by (meson order_trans)
  next
    case False
    with Cons.prems obtain payload where
      pl: "peek_n td (uint (trailer_offset_to_data e)) (unat (entry_length (entry_hdr e))) = Some payload"
      by (auto split: option.splits)
    let ?o1 = "fwrite cap out payload"
    let ?o2 = "fwrite cap ?o1 (enc16 (entry_type (entry_hdr e)) @ enc32 (entry_length (entry_hdr e)))"
    from Cons.prems False pl have "write_entries td ns cap es ?o2
        (tot + (entry_length (entry_hdr e) + 6)) = Some (out', tot')"
      by (simp add: Let_def)
    from Cons.IH[OF this] fwrite_length_mono[of out cap] fwrite_length_mono[of ?o1 cap]
    show ?thesis by (meson order_trans)
  qed
qed

lemma write_entries_complete:
  assumes "write_entries td ns cap infos out tot = Some (out', tot')"
    and "length out' < cap" and "length (fst ns) = nat (snd ns)" and "0 \<le> snd ns"
  shows "out' = out @ written_entries td ns infos
       \<and> tot' = tot + word_of_nat (written_size td ns infos)"
  using assms(1,2)
proof (induction infos arbitrary: out tot)
  case Nil
  then show ?case by simp
next
  case (Cons e es)
  let ?h = "enc16 (entry_type (entry_hdr e))"
  show ?case
  proof (cases "entry_type (entry_hdr e) = 0x0101")
    case True
    let ?p = "take (nat (snd ns)) (fst ns)"
    let ?o1 = "fwrite cap out ?p"
    let ?o2 = "fwrite cap ?o1 (?h @ enc32 (word_of_int (snd ns)))"
    from Cons.prems True have rec: "write_entries td ns cap es ?o2
        (tot + (word_of_int (snd ns) + 6)) = Some (out', tot')"
      by (simp add: Let_def)
    from write_entries_mono[OF rec] Cons.prems(2) have l2: "length ?o2 < cap" by simp
    then have o2: "?o2 = ?o1 @ ?h @ enc32 (word_of_int (snd ns))" by (rule fwrite_complete)
    from l2 fwrite_length_mono[of ?o1 cap] have "length ?o1 < cap" by (meson le_less_trans)
    then have o1: "?o1 = out @ ?p" by (rule fwrite_complete)
    have wp: "written_payload td ns e = ?p" using True by (simp add: written_payload_def)
    have lp: "length ?p = nat (snd ns)" using assms(3) by simp
    have wl: "(word_of_nat (length ?p) :: 32 word) = word_of_int (snd ns)"
      unfolding lp using assms(4) by simp
    have o2': "?o2 = (out @ ?p) @ ?h @ enc32 (word_of_int (snd ns))"
      by (subst o2, subst o1) (rule refl)
    from Cons.IH[OF rec Cons.prems(2)] show ?thesis
      unfolding o2' by (simp add: wp wl algebra_simps del: length_take)
  next
    case False
    with Cons.prems obtain payload where
      pl: "peek_n td (uint (trailer_offset_to_data e)) (unat (entry_length (entry_hdr e))) = Some payload"
      by (auto split: option.splits)
    let ?o1 = "fwrite cap out payload"
    let ?o2 = "fwrite cap ?o1 (?h @ enc32 (entry_length (entry_hdr e)))"
    from Cons.prems False pl have rec: "write_entries td ns cap es ?o2
        (tot + (entry_length (entry_hdr e) + 6)) = Some (out', tot')"
      by (simp add: Let_def)
    from write_entries_mono[OF rec] Cons.prems(2) have l2: "length ?o2 < cap" by simp
    then have o2: "?o2 = ?o1 @ ?h @ enc32 (entry_length (entry_hdr e))" by (rule fwrite_complete)
    from l2 fwrite_length_mono[of ?o1 cap] have "length ?o1 < cap" by (meson le_less_trans)
    then have o1: "?o1 = out @ payload" by (rule fwrite_complete)
    from pl have wp: "written_payload td ns e = payload"
      and lp: "length payload = unat (entry_length (entry_hdr e))"
      using False by (auto simp: written_payload_def peek_n_def split: if_splits)
    have wl: "(word_of_nat (length payload) :: 32 word) = entry_length (entry_hdr e)"
      unfolding lp by simp
    have o2': "?o2 = (out @ payload) @ ?h @ enc32 (entry_length (entry_hdr e))"
      by (subst o2, subst o1) (rule refl)
    from Cons.IH[OF rec Cons.prems(2)] show ?thesis
      unfolding o2' by (simp add: wp wl algebra_simps)
  qed
qed

subsection \<open>Runs on the smallest file\<close>

lemma small_file_length: "length small_file = 81"
  by (simp add: small_file_def)

lemma small_file_read:
  "ins_read_allocate_trailer small_file = Inr (\<lparr>trailer_len = 81, trailer_version = 3\<rparr>, small_file)"
  by (simp add: small_file_def ins_read_allocate_trailer_def ins_find_and_read_minimal_header_def
      kInsFileSignature_bytes kInsFileMinHeaderLength_def kInsFileSignatureLength_def
      fseek_end_def fread_def le32_def)

lemma small_file_entries:
  "ins_decode_trailer_data small_file \<lparr>trailer_len = 81, trailer_version = 3\<rparr> [] =
     Some (Inr [\<lparr>entry_hdr = \<lparr>entry_type = 257, entry_length = 3\<rparr>, trailer_offset_to_data = 0\<rparr>])"
  by (simp add: small_file_def ins_decode_trailer_data_def kInsFileMinHeaderLength_def
      kInsFileSignatureLength_def find_trailer_headers.simps read_entry_hdr_def peek_n_def
      le16_def le32_def)

lemma small_file_change:
  "ins_change_stitching_offset small_file 0 3 [0x62] = Inr ([0x2A, 1, 0x62], 3)"
  by (simp add: small_file_def ins_change_stitching_offset_def decode_eval poke_def
      new_header_size_def strlen_int_def c_string_def kInsFileSpecificHeaderTagTypeOffset_def)

lemma small_file_no_media: "copy_media small_file cap 0 0 0 [] = Some (Inr (False, []))"
  by (simp add: copy_media.simps[of _ _ 0 0 0])

lemma small_file_short_entries:
  "write_entries small_file ([0x2A, 1, 0x62], 3) 5
     [\<lparr>entry_hdr = \<lparr>entry_type = 257, entry_length = 3\<rparr>, trailer_offset_to_data = 0\<rparr>] [] 0 =
   Some ([0x2A, 1, 0x62, 1, 1], 9)"
  by (simp add: fwrite_def enc16_def enc32_def)

lemma write_zero_padding_full:
  "cap \<le> length out \<Longrightarrow> write_zero_padding cap n out = out"
  by (induction n arbitrary: out) (simp_all add: fwrite_def)

lemma small_file_change_entries:
  "change_entries small_file [0x62]
     [\<lparr>entry_hdr = \<lparr>entry_type = 257, entry_length = 3\<rparr>, trailer_offset_to_data = 0\<rparr>] None =
   Inr (Some ([0x2A, 1, 0x62], 3))"
  by (simp add: small_file_change)

subsection \<open>Results of the stages of a run\<close>

lemma decode_trailer_data_Inr:
  assumes "ins_decode_trailer_data td ti v = Some (Inr es)"
  shows "find_trailer_headers td (trailer_len ti) 72 v = Some (Inr (trailer_len ti, es))"
  using assms
  by (auto simp: ins_decode_trailer_data_def kInsFileMinHeaderLength_def
      kInsFileSignatureLength_def split: option.splits sum.splits if_splits)

lemma rewrite_output_layout:
  assumes rd: "ins_read_allocate_trailer file = Inr (ti, td)"
    and dc: "ins_decode_trailer_data td ti [] = Some (Inr infos)"
    and ce: "change_entries td new_offset infos None = Inr (Some new_spec)"
    and run: "run_change_stitching_offset (Some file) (Some cap) new_offset = Some (Inr (0, out))"
    and full: "length out < cap"
  shows "\<exists>media. out = media @ written_entries td new_spec (rev infos) @ replicate 32 0
           @ enc32 (word_of_nat (written_size td new_spec (rev infos) + 72))
           @ enc32 (trailer_version ti) @ kInsFileSignature"
proof -
  from run obtain media out1 total where
    we: "write_entries td new_spec cap (rev infos) media 0 = Some (out1, total)"
    and out: "out = fwrite cap (fwrite cap (write_zero_padding cap 32 out1)
                 (enc32 (total + 72) @ enc32 (trailer_version ti))) kInsFileSignature"
    unfolding run_change_stitching_offset_def
    by (simp add: rd dc ce Let_def kInsFileMinHeaderLength_def kInsFileSignatureLength_def
        split: option.splits sum.splits prod.splits bool.splits)
  let ?o2 = "write_zero_padding cap 32 out1"
  let ?o3 = "fwrite cap ?o2 (enc32 (total + 72) @ enc32 (trailer_version ti))"
  from full out have o4: "out = ?o3 @ kInsFileSignature" using fwrite_complete[of cap ?o3] by simp
  from full out fwrite_length_mono[of ?o3 cap kInsFileSignature] have l3: "length ?o3 < cap" by simp
  then have o3: "?o3 = ?o2 @ enc32 (total + 72) @ enc32 (trailer_version ti)"
    by (rule fwrite_complete)
  from l3 fwrite_length_mono[of ?o2 cap] have l2: "length ?o2 < cap" by (meson le_less_trans)
  then have o2: "?o2 = out1 @ replicate 32 0" by (rule write_zero_padding_complete)
  from l2 write_zero_padding_mono[of out1 cap 32] have l1: "length out1 < cap"
    by (meson le_less_trans)
  obtain buf n where ns: "new_spec = (buf, n)" by (cases new_spec)
  from change_entries_length[OF ce[unfolded ns]] have "length buf = nat n \<and> 0 \<le> n" by simp
  then have inv: "length (fst new_spec) = nat (snd new_spec)" "0 \<le> snd new_spec"
    by (simp_all add: ns)
  from write_entries_complete[OF we l1 inv]
  have o1: "out1 = media @ written_entries td new_spec (rev infos)"
    and tot: "total = word_of_nat (written_size td new_spec (rev infos))" by simp_all
  have o3': "?o3 = (out1 @ replicate 32 0) @ enc32 (total + 72) @ enc32 (trailer_version ti)"
    by (subst o3, subst o2) (rule refl)
  have "out = ((out1 @ replicate 32 0) @ enc32 (total + 72) @ enc32 (trailer_version ti))
                @ kInsFileSignature"
    using o4 unfolding o3' .
  then have "out = media @ written_entries td new_spec (rev infos) @ replicate 32 0
           @ enc32 (word_of_nat (written_size td new_spec (rev infos) + 72))
           @ enc32 (trailer_version ti) @ kInsFileSignature"
    unfolding o1 tot by simp
  then show ?thesis ..
qed

lemma change_entries_failure:
  "change_entries td new_offset infos st = Inl (Failure c) \<Longrightarrow> c = - 7"
  by (induction infos arbitrary: st) (auto split: if_splits sum.splits error.splits)

lemma run_success_stages:
  assumes run: "run_change_stitching_offset (Some file) param_file_out new_offset = Some (Inr (0, out))"
  shows "\<exists>ti td infos new_spec. ins_read_allocate_trailer file = Inr (ti, td)
          \<and> ins_decode_trailer_data td ti [] = Some (Inr infos)
          \<and> change_entries td new_offset infos None = Inr (Some new_spec)"
proof -
  from run obtain ti td where rd: "ins_read_allocate_trailer file = Inr (ti, td)"
    unfolding run_change_stitching_offset_def
    by (cases "ins_read_allocate_trailer file") auto
  from run rd obtain infos where dc: "ins_decode_trailer_data td ti [] = Some (Inr infos)"
    unfolding run_change_stitching_offset_def
    by (auto split: option.splits sum.splits error.splits)
  from run rd dc obtain new_spec where "change_entries td new_offset infos None = Inr (Some new_spec)"
    unfolding run_change_stitching_offset_def
    by (auto split: option.splits sum.splits error.splits dest: change_entries_failure)
  with rd dc show ?thesis by blast
qed

section \<open>The claims\<close>

subsection \<open>Claim C1: rewriting with the same offset value\<close>

text \<open>
  Claim C1, as stated, fails. The payload of the first file holds two offset tags with the
  values \<open>a\<close> and \<open>b\<close>; the rewrite with the value \<open>a\<close> of the first one replaces both values,
  and the trailer written differs from the trailer read. The payload of the second file
  holds an offset tag with an empty value: its size 0 is taken for "no offset tag", a
  second tag is added, and the store runs past the new buffer.
\<close>

theorem same_offset_not_reproduced_counterexample:
  "run_change_stitching_offset
     (Some (trailer_bytes [(0x0101, [0x2A, 1, 0x61, 0x2A, 1, 0x62])] 3)) (Some 1000) [0x61] =
     Some (Inr (0, trailer_bytes [(0x0101, [0x2A, 1, 0x61, 0x2A, 1, 0x61])] 3))
   \<and> trailer_bytes [(0x0101, [0x2A, 1, 0x61, 0x2A, 1, 0x61])] 3
       \<noteq> trailer_bytes [(0x0101, [0x2A, 1, 0x61, 0x2A, 1, 0x62])] 3
   \<and> run_change_stitching_offset (Some (trailer_bytes [(0x0101, [0x2A, 0])] 3)) (Some 1000) [] =
     Some (Inl Undefined)"
proof -
  have a: "run_change_stitching_offset
     (Some ([] @ trailer_bytes [(0x0101, [0x2A, 1, 0x61, 0x2A, 1, 0x62])] 3)) (Some 1000) [0x61] =
     Some (Inr (0, [] @ trailer_bytes
       (new_entries [0x2A, 1, 0x61, 0x2A, 1, 0x61] [(0x0101, [0x2A, 1, 0x61, 0x2A, 1, 0x62])]) 3))"
    by (rule run_forward_gen[OF two_offsets_change]) simp_all
  have b: "trailer_bytes [(0x0101, [0x2A, 1, 0x61, 0x2A, 1, 0x61])] 3
       \<noteq> trailer_bytes [(0x0101, [0x2A, 1, 0x61, 0x2A, 1, 0x62])] 3"
    by (simp add: layout_eval)
  have c: "run_change_stitching_offset (Some ([] @ trailer_bytes [(0x0101, [0x2A, 0])] 3))
      (Some 1000) [] = Some (Inl Undefined)"
    by (rule run_undefined_gen[OF empty_offset_change]) simp
  from a b c show ?thesis by simp
qed

text \<open>
  Claim C1, amended. Take a file that is laid out as the format says: media data, entries,
  padding, trailer header and signature, with exactly one entry of type \<open>0x0101\<close>, whose
  payload is at most four tags (a tail only after four tags) with exactly one offset tag, of
  a non-empty value. The rewrite with that same value returns 0 and writes a file equal to
  the input, byte for byte: media data, entries in their order with their headers, padding,
  trailer header and signature. The sizes are below \<open>2 ^ 31\<close> and the output device takes the
  whole file.
\<close>

theorem rewrite_same_offset_reproduces_file:
  assumes "tags = ts1 @ (kInsFileSpecificHeaderTagTypeOffset, x) # ts2"
    and "\<forall>t \<in> set ts1. fst t \<noteq> kInsFileSpecificHeaderTagTypeOffset"
    and "\<forall>t \<in> set ts2. fst t \<noteq> kInsFileSpecificHeaderTagTypeOffset"
    and "x \<noteq> []"
    and "\<forall>t \<in> set tags. length (snd t) \<le> 255"
    and "length tags \<le> 4" and "tail \<noteq> [] \<longrightarrow> length tags = 4"
    and "es = es1 @ (0x0101, tags_bytes tags @ tail) # es2"
    and "\<forall>e \<in> set es1. fst e \<noteq> 0x0101" and "\<forall>e \<in> set es2. fst e \<noteq> 0x0101"
    and "c_string new_offset = x"
    and "length (trailer_bytes es ver) < 2 ^ 31"
    and "length media < 2 ^ 31"
    and "length (media @ trailer_bytes es ver) \<le> cap"
  shows "run_change_stitching_offset (Some (media @ trailer_bytes es ver)) (Some cap) new_offset =
           Some (Inr (0, media @ trailer_bytes es ver))"
  using assms(12,13,14)
  by (intro run_forward[OF assms(1) assms(1) assms(2-7) assms(11) assms(8) assms(8) assms(9,10)])

theorem rewrite_same_offset_reproduces_file_witness:
  "run_change_stitching_offset
     (Some ([1, 2, 3] @ trailer_bytes
        [(0x0300, [9, 9]),
         (0x0101, tags_bytes [(0x0A, [0x41]), (kInsFileSpecificHeaderTagTypeOffset, [0x61])])] 3))
     (Some 200) [0x61] =
   Some (Inr (0, [1, 2, 3] @ trailer_bytes
        [(0x0300, [9, 9]),
         (0x0101, tags_bytes [(0x0A, [0x41]), (kInsFileSpecificHeaderTagTypeOffset, [0x61])])] 3))"
  using rewrite_same_offset_reproduces_file[where
      tags = "[(0x0A, [0x41]), (kInsFileSpecificHeaderTagTypeOffset, [0x61])]"
      and ?ts1.0 = "[(0x0A, [0x41])]" and x = "[0x61]" and ?ts2.0 = "[]" and tail = "[]"
      and es = "[(0x0300, [9, 9]),
         (0x0101, tags_bytes [(0x0A, [0x41]), (kInsFileSpecificHeaderTagTypeOffset, [0x61])])]"
      and ?es1.0 = "[(0x0300, [9, 9])]" and ?es2.0 = "[]" and new_offset = "[0x61]"
      and ver = 3 and media = "[1, 2, 3]" and cap = 200]
  by (simp add: kInsFileSpecificHeaderTagTypeOffset_def c_string_def tag_bytes_def)

subsection \<open>Claim C2: the size of the rebuilt payload\<close>

text \<open>
  Claim C2 fails on the code. The payload holds the tag \<open>0x0A\<close> with one data byte and no
  offset tag; the new value has one byte. The new buffer gets \<open>3 - 0 + 1 = 4\<close> bytes, not
  \<open>3 + 1 + 2\<close>; the copied tag fills three of them, and the added offset tag (two header
  bytes and the value) does not fit into the one byte left.
\<close>

theorem inserted_tag_overruns_new_buffer:
  "ins_decode_trailer_specific_header [0x0A, 0x01, 0x41] 0 3 []
     = Inr \<lparr>hdr_elements_count = 1,
            out_hdr_elements = [\<lparr>hdr_offset = 0, tag_hdr = \<lparr>type_code = 0x0A, data_size = 1\<rparr>,
                                 tag_data = 2\<rparr>],
            out_tail_ptr = 3, out_tail_size = 0\<rparr>
   \<and> new_header_size 3
        (find_offset_size [\<lparr>hdr_offset = 0, tag_hdr = \<lparr>type_code = 0x0A, data_size = 1\<rparr>,
                            tag_data = 2\<rparr>])
        (strlen_int [0x37]) = 4
   \<and> copy_tags [0x0A, 0x01, 0x41] [0x37] 1
        [\<lparr>hdr_offset = 0, tag_hdr = \<lparr>type_code = 0x0A, data_size = 1\<rparr>, tag_data = 2\<rparr>]
        (replicate 4 0) 0 = Some ([0x0A, 0x01, 0x41, 0], 3)
   \<and> add_offset_tag [0x37] 1 [0x0A, 0x01, 0x41, 0] 3 = None
   \<and> ins_change_stitching_offset [0x0A, 0x01, 0x41] 0 3 [0x37] = Inl Undefined"
  by (simp add: ins_change_stitching_offset_def decode_eval poke_def new_header_size_def
      strlen_int_def c_string_def kInsFileSpecificHeaderTagTypeOffset_def add_offset_tag_def)

subsection \<open>Claim C3: the bound check of a tag\<close>

text \<open>
  Claim C3 fails on the code. In a payload of three bytes the tag \<open>0x0A\<close> declares two data
  bytes where one is left after its header: the decoder succeeds, with a tail size of -1.
  With the tags \<open>0x0A\<close> (no data) and \<open>0x12\<close> in three bytes, the size byte of the second tag is
  the byte after the payload: the decoder reads it (\<open>Undefined\<close> when the buffer ends with the
  payload), and its result depends on that byte (failure for 9, success for 1).
\<close>

theorem tag_bound_check_misses_header_bytes:
  "ins_decode_trailer_specific_header [0x0A, 0x02, 0x41] 0 3 []
     = Inr \<lparr>hdr_elements_count = 1,
            out_hdr_elements = [\<lparr>hdr_offset = 0, tag_hdr = \<lparr>type_code = 0x0A, data_size = 2\<rparr>,
                                 tag_data = 2\<rparr>],
            out_tail_ptr = 4, out_tail_size = - 1\<rparr>
   \<and> ins_decode_trailer_specific_header [0x0A, 0x00, 0x12] 0 3 [] = Inl Undefined
   \<and> ins_decode_trailer_specific_header [0x0A, 0x00, 0x12, 0x09] 0 3 [] = Inl (Failure (- 1))
   \<and> ins_decode_trailer_specific_header [0x0A, 0x00, 0x12, 0x01] 0 3 []
     = Inr \<lparr>hdr_elements_count = 2,
            out_hdr_elements = [\<lparr>hdr_offset = 0, tag_hdr = \<lparr>type_code = 0x0A, data_size = 0\<rparr>,
                                 tag_data = 2\<rparr>,
                                \<lparr>hdr_offset = 2, tag_hdr = \<lparr>type_code = 0x12, data_size = 1\<rparr>,
                                 tag_data = 4\<rparr>],
            out_tail_ptr = 5, out_tail_size = - 2\<rparr>"
  by (simp add: decode_eval)

subsection \<open>Claim C4: the trailer header that is written\<close>

text \<open>
  Claim C4. In every run of the rewrite that returns 0 and in which no write was cut short
  (the output is shorter than the capacity of the device), the output ends with the entries
  as the rebuild loop wrote them, 32 zero bytes, the trailer header and the signature; the
  \<open>trailer_len\<close> of that header is 72 plus the sum of payload length plus 6 over the entries
  written, with the new payload for the entry of type \<open>0x0101\<close>, stored as a 32-bit number
  (which is that sum itself when it is below \<open>2 ^ 32\<close>), and its \<open>trailer_version\<close> is the
  one read from the input.
\<close>

theorem rewrite_emits_recomputed_trailer_len:
  assumes run: "run_change_stitching_offset (Some file) (Some cap) new_offset = Some (Inr (0, out))"
    and full: "length out < cap"
  shows "\<exists>ti td infos new_spec media.
           ins_read_allocate_trailer file = Inr (ti, td)
         \<and> ins_decode_trailer_data td ti [] = Some (Inr infos)
         \<and> change_entries td new_offset infos None = Inr (Some new_spec)
         \<and> out = media @ written_entries td new_spec (rev infos) @ replicate 32 0
                @ enc32 (word_of_nat (written_size td new_spec (rev infos) + 72))
                @ enc32 (trailer_version ti) @ kInsFileSignature
         \<and> (written_size td new_spec (rev infos) + 72 < 2 ^ 32 \<longrightarrow>
              unat (word_of_nat (written_size td new_spec (rev infos) + 72) :: 32 word) =
                written_size td new_spec (rev infos) + 72)"
proof -
  from run_success_stages[OF run] obtain ti td infos new_spec where
    st: "ins_read_allocate_trailer file = Inr (ti, td)"
        "ins_decode_trailer_data td ti [] = Some (Inr infos)"
        "change_entries td new_offset infos None = Inr (Some new_spec)"
    by blast
  from rewrite_output_layout[OF st run full] st unat_32_of_nat show ?thesis by blast
qed

theorem rewrite_emits_recomputed_trailer_len_witness:
  "run_change_stitching_offset
       (Some ([1, 2, 3] @ trailer_bytes
          [(0x0101, tags_bytes [(kInsFileSpecificHeaderTagTypeOffset, [0x61])])] 3))
       (Some 200) [0x62, 0x63] =
     Some (Inr (0, [1, 2, 3] @ trailer_bytes
          [(0x0101, tags_bytes [(kInsFileSpecificHeaderTagTypeOffset, [0x62, 0x63])])] 3))
   \<and> length ([1, 2, 3] @ trailer_bytes
          [(0x0101, tags_bytes [(kInsFileSpecificHeaderTagTypeOffset, [0x62, 0x63])])] 3) < 200
   \<and> (\<exists>ti td infos new_spec media.
         ins_read_allocate_trailer ([1, 2, 3] @ trailer_bytes
           [(0x0101, tags_bytes [(kInsFileSpecificHeaderTagTypeOffset, [0x61])])] 3) = Inr (ti, td)
       \<and> ins_decode_trailer_data td ti [] = Some (Inr infos)
       \<and> change_entries td [0x62, 0x63] infos None = Inr (Some new_spec)
       \<and> [1, 2, 3] @ trailer_bytes
             [(0x0101, tags_bytes [(kInsFileSpecificHeaderTagTypeOffset, [0x62, 0x63])])] 3 =
           media @ written_entries td new_spec (rev infos) @ replicate 32 0
           @ enc32 (word_of_nat (written_size td new_spec (rev infos) + 72))
           @ enc32 (trailer_version ti) @ kInsFileSignature
       \<and> (written_size td new_spec (rev infos) + 72 < 2 ^ 32 \<longrightarrow>
            unat (word_of_nat (written_size td new_spec (rev infos) + 72) :: 32 word) =
              written_size td new_spec (rev infos) + 72))"
proof -
  let ?k = kInsFileSpecificHeaderTagTypeOffset
  let ?es = "[(0x0101, tags_bytes [(?k, [0x61])] @ [])] :: entry list"
  let ?es' = "[(0x0101, tags_bytes [(?k, [0x62, 0x63])] @ [])] :: entry list"
  have run: "run_change_stitching_offset (Some ([1, 2, 3] @ trailer_bytes ?es 3)) (Some 200)
      [0x62, 0x63] = Some (Inr (0, [1, 2, 3] @ trailer_bytes ?es' 3))"
    by (rule run_forward[where ?ts1.0 = "[]" and ?ts2.0 = "[]" and x = "[0x61]"
          and y = "[0x62, 0x63]" and ?es1.0 = "[]" and ?es2.0 = "[]"
          and tags = "[(?k, [0x61])]" and tags' = "[(?k, [0x62, 0x63])]"])
       (simp_all add: c_string_def tag_bytes_def)
  have full: "length ([1, 2, 3] @ trailer_bytes ?es' 3) < 200"
    by (simp add: tag_bytes_def)
  from rewrite_emits_recomputed_trailer_len[OF run full] run full
  show ?thesis by simp
qed

subsection \<open>Claim C5: the length check of the entry walk\<close>

text \<open>
  Claim C5, as stated, fails: the running length is a \<open>uint32_t\<close> and wraps. The file
  below is read as a trailer with \<open>trailer_len = 83\<close>; its first entry declares the length
  \<open>0xFFFFFFFF\<close>, which moves the cursor from 72 to 77, and the second entry moves it to 83.
  The decode succeeds, and the sum of \<open>6 + length\<close> over the entries plus 72 is 4294967379,
  not 83.
\<close>

theorem trailer_sum_wraps_counterexample:
  "ins_read_allocate_trailer wrapping_trailer =
     Inr (\<lparr>trailer_len = 83, trailer_version = 3\<rparr>, wrapping_trailer)
   \<and> ins_decode_trailer_data wrapping_trailer \<lparr>trailer_len = 83, trailer_version = 3\<rparr> [] =
     Some (Inr [\<lparr>entry_hdr = \<lparr>entry_type = 0x900, entry_length = 0xFFFFFFFF\<rparr>,
                 trailer_offset_to_data = 6\<rparr>,
                \<lparr>entry_hdr = \<lparr>entry_type = 0x707, entry_length = 0\<rparr>,
                 trailer_offset_to_data = 0\<rparr>])
   \<and> entries_size [\<lparr>entry_hdr = \<lparr>entry_type = 0x900, entry_length = 0xFFFFFFFF\<rparr>,
                     trailer_offset_to_data = 6\<rparr>,
                    \<lparr>entry_hdr = \<lparr>entry_type = 0x707, entry_length = 0\<rparr>,
                     trailer_offset_to_data = 0\<rparr>] + 72 = 4294967379
   \<and> unat (trailer_len \<lparr>trailer_len = 83, trailer_version = 3\<rparr>) = 83"
  by (simp add: ins_decode_trailer_data_def kInsFileMinHeaderLength_def
      kInsFileSignatureLength_def wrapping_trailer_walk wrapping_trailer_read)

text \<open>
  Claim C5, amended. When the walk completes, the cursor it ends with is 72 plus the sum of
  \<open>6 + length\<close> over the entries in 32-bit arithmetic, the decode fails with -1 exactly when
  that cursor differs from \<open>trailer_len\<close>, and succeeds exactly when it is equal. On every
  successful decode the sum of \<open>6 + length\<close> over the entries plus 72 equals \<open>trailer_len\<close> modulo
  \<open>2 ^ 32\<close>, and equals it exactly when the sum is below \<open>2 ^ 32\<close>.
\<close>

theorem trailer_walk_lands_modulo:
  "(find_trailer_headers trailer_data (trailer_len ti) 72 [] = Some (Inr (p, es)) \<longrightarrow>
      p = 72 + word_of_nat (entries_size es)
      \<and> (ins_decode_trailer_data trailer_data ti [] = Some (Inl (Failure (- 1)))
           \<longleftrightarrow> p \<noteq> trailer_len ti)
      \<and> (ins_decode_trailer_data trailer_data ti [] = Some (Inr es) \<longleftrightarrow> p = trailer_len ti))
   \<and> (ins_decode_trailer_data trailer_data ti [] = Some (Inr es') \<longrightarrow>
      (72 + entries_size es') mod 2 ^ 32 = unat (trailer_len ti)
      \<and> (72 + entries_size es' < 2 ^ 32 \<longrightarrow> 72 + entries_size es' = unat (trailer_len ti)))"
proof (rule conjI; rule impI)
  assume w: "find_trailer_headers trailer_data (trailer_len ti) 72 [] = Some (Inr (p, es))"
  from find_trailer_headers_sum[OF w refl] have "p = 72 + word_of_nat (entries_size es)"
    by simp
  moreover from w have "ins_decode_trailer_data trailer_data ti [] = Some (Inl (Failure (- 1)))
           \<longleftrightarrow> p \<noteq> trailer_len ti"
    by (simp add: ins_decode_trailer_data_def kInsFileMinHeaderLength_def
        kInsFileSignatureLength_def)
  moreover from w have "ins_decode_trailer_data trailer_data ti [] = Some (Inr es)
           \<longleftrightarrow> p = trailer_len ti"
    by (simp add: ins_decode_trailer_data_def kInsFileMinHeaderLength_def
        kInsFileSignatureLength_def)
  ultimately show "p = 72 + word_of_nat (entries_size es)
      \<and> (ins_decode_trailer_data trailer_data ti [] = Some (Inl (Failure (- 1)))
           \<longleftrightarrow> p \<noteq> trailer_len ti)
      \<and> (ins_decode_trailer_data trailer_data ti [] = Some (Inr es) \<longleftrightarrow> p = trailer_len ti)"
    by blast
next
  assume "ins_decode_trailer_data trailer_data ti [] = Some (Inr es')"
  from find_trailer_headers_sum[OF decode_trailer_data_Inr[OF this] refl]
  have "trailer_len ti = 72 + word_of_nat (entries_size es')" by simp
  then have "unat (trailer_len ti) = (72 + entries_size es') mod 2 ^ 32"
    by (simp add: unat_word_ariths unat_of_nat mod_simps)
  then show "(72 + entries_size es') mod 2 ^ 32 = unat (trailer_len ti)
      \<and> (72 + entries_size es' < 2 ^ 32 \<longrightarrow> 72 + entries_size es' = unat (trailer_len ti))"
    by simp
qed

theorem trailer_walk_lands_modulo_witness:
  "find_trailer_headers wrapping_trailer
     (trailer_len \<lparr>trailer_len = 83, trailer_version = 3\<rparr>) 72 [] =
     Some (Inr (83, [\<lparr>entry_hdr = \<lparr>entry_type = 0x900, entry_length = 0xFFFFFFFF\<rparr>,
                       trailer_offset_to_data = 6\<rparr>,
                     \<lparr>entry_hdr = \<lparr>entry_type = 0x707, entry_length = 0\<rparr>,
                       trailer_offset_to_data = 0\<rparr>]))
   \<and> ins_decode_trailer_data wrapping_trailer \<lparr>trailer_len = 83, trailer_version = 3\<rparr> [] =
     Some (Inr [\<lparr>entry_hdr = \<lparr>entry_type = 0x900, entry_length = 0xFFFFFFFF\<rparr>,
                 trailer_offset_to_data = 6\<rparr>,
                \<lparr>entry_hdr = \<lparr>entry_type = 0x707, entry_length = 0\<rparr>,
                 trailer_offset_to_data = 0\<rparr>])
   \<and> (72 + entries_size [\<lparr>entry_hdr = \<lparr>entry_type = 0x900, entry_length = 0xFFFFFFFF\<rparr>,
                 trailer_offset_to_data = 6\<rparr>,
                \<lparr>entry_hdr = \<lparr>entry_type = 0x707, entry_length = 0\<rparr>,
                 trailer_offset_to_data = 0\<rparr>]) mod 2 ^ 32 = 83"
proof -
  let ?ti = "\<lparr>trailer_len = 83, trailer_version = 3\<rparr>"
  let ?es = "[\<lparr>entry_hdr = \<lparr>entry_type = 0x900, entry_length = 0xFFFFFFFF\<rparr>,
                 trailer_offset_to_data = 6\<rparr>,
                \<lparr>entry_hdr = \<lparr>entry_type = 0x707, entry_length = 0\<rparr>,
                 trailer_offset_to_data = 0\<rparr>]"
  have w: "find_trailer_headers wrapping_trailer (trailer_len ?ti) 72 [] = Some (Inr (83, ?es))"
    by (simp add: wrapping_trailer_walk)
  from trailer_walk_lands_modulo[where trailer_data = wrapping_trailer and ti = ?ti
      and p = 83 and es = ?es and es' = ?es] w
  show ?thesis by simp
qed

subsection \<open>Claim C6: short writes\<close>

text \<open>
  Claim C6 fails on the code. The output device takes five bytes; the file has no media
  data, so every write of the run belongs to the trailer. The writes of the entry header, of
  the padding, of the trailer header and of the signature are cut short, and the run still
  returns 0, leaving five bytes of a trailer without trailer header and signature.
\<close>

theorem short_write_in_trailer_returns_success:
  "run_change_stitching_offset (Some small_file) (Some 5) [0x62] =
     Some (Inr (0, [0x2A, 1, 0x62, 1, 1]))"
  by (simp add: run_change_stitching_offset_def small_file_read small_file_entries
      small_file_change_entries small_file_length small_file_no_media small_file_short_entries
      write_zero_padding_full fwrite_def
      del: write_entries.simps change_entries.simps)

subsection \<open>Claim C7: reading the new offset value back\<close>

text \<open>
  Claim C7, as stated, fails: the size of a tag is one byte. The rewrite with a value of 256
  bytes \<open>1\<close> writes the size byte 0 and all 256 bytes; decoding the output yields an offset
  tag of size 0 with no data, followed by three tags read out of the value.
\<close>

theorem long_offset_truncated_counterexample:
  "run_change_stitching_offset
     (Some (trailer_bytes [(0x0101, tags_bytes [(kInsFileSpecificHeaderTagTypeOffset, [0x61])])] 3))
     (Some 1000) (replicate 256 0x31) =
     Some (Inr (0, trailer_bytes
       [(0x0101, tags_bytes [(kInsFileSpecificHeaderTagTypeOffset, replicate 256 0x31)])] 3))
   \<and> run_show_info (Some (trailer_bytes
       [(0x0101, tags_bytes [(kInsFileSpecificHeaderTagTypeOffset, replicate 256 0x31)])] 3)) =
     Some (Inr (0,
       [\<lparr>line_type_code = 0x2A, line_size = 0, line_hdr_offset = 0, line_data = []\<rparr>,
        \<lparr>line_type_code = 0x31, line_size = 0x31, line_hdr_offset = 2,
         line_data = replicate 49 0x31\<rparr>,
        \<lparr>line_type_code = 0x31, line_size = 0x31, line_hdr_offset = 53,
         line_data = replicate 49 0x31\<rparr>,
        \<lparr>line_type_code = 0x31, line_size = 0x31, line_hdr_offset = 104,
         line_data = replicate 49 0x31\<rparr>]))"
proof -
  let ?k = kInsFileSpecificHeaderTagTypeOffset
  let ?T = "[(0x2A, []), (0x31, replicate 49 0x31), (0x31, replicate 49 0x31),
               (0x31, replicate 49 0x31)] :: tag list"
  have a: "run_change_stitching_offset
     (Some ([] @ trailer_bytes [(0x0101, tags_bytes [(?k, [0x61])] @ [])] 3))
     (Some 1000) (replicate 256 0x31) =
     Some (Inr (0, [] @ trailer_bytes [(0x0101, tags_bytes [(?k, replicate 256 0x31)] @ [])] 3))"
    by (rule run_forward[where ?ts1.0 = "[]" and ?ts2.0 = "[]" and x = "[0x61]"
          and y = "replicate 256 0x31" and ?es1.0 = "[]" and ?es2.0 = "[]"
          and tags = "[(?k, [0x61])]" and tags' = "[(?k, replicate 256 0x31)]"])
       (simp_all add: c_string_def tag_bytes_def)
  have b: "run_show_info (Some ([] @ trailer_bytes [(0x0101, tags_bytes ?T @ replicate 103 0x31)] 3))
      = Some (Inr (0, tag_lines 0 ?T))"
    by (rule run_show_forward[where ?es1.0 = "[]" and ?es2.0 = "[]"])
       (simp_all add: tag_bytes_def)
  from a b show ?thesis
    unfolding long_offset_payload[symmetric] by simp
qed

text \<open>
  Claim C7, amended. For a file laid out as in claim C1 (one entry of type \<open>0x0101\<close>, one
  offset tag, of a non-empty value) and a new value of at most 255 bytes, the rewrite returns
  0, and the information mode run on its output prints the tags of the input with the offset
  tag at its old place, with a size equal to the length of the new value and with exactly
  the bytes of the new value as data.
\<close>

theorem rewrite_then_decode_yields_offset:
  assumes "tags = ts1 @ (kInsFileSpecificHeaderTagTypeOffset, x) # ts2"
    and "tags' = ts1 @ (kInsFileSpecificHeaderTagTypeOffset, y) # ts2"
    and "\<forall>t \<in> set ts1. fst t \<noteq> kInsFileSpecificHeaderTagTypeOffset"
    and "\<forall>t \<in> set ts2. fst t \<noteq> kInsFileSpecificHeaderTagTypeOffset"
    and "x \<noteq> []"
    and "\<forall>t \<in> set tags. length (snd t) \<le> 255"
    and "length tags \<le> 4" and "tail \<noteq> [] \<longrightarrow> length tags = 4"
    and "es = es1 @ (0x0101, tags_bytes tags @ tail) # es2"
    and "es' = es1 @ (0x0101, tags_bytes tags' @ tail) # es2"
    and "\<forall>e \<in> set es1. fst e \<noteq> 0x0101" and "\<forall>e \<in> set es2. fst e \<noteq> 0x0101"
    and "c_string new_offset = y" and "length y \<le> 255"
    and "length (trailer_bytes es ver) < 2 ^ 31"
    and "length (trailer_bytes es' ver) < 2 ^ 31"
    and "length media < 2 ^ 31"
    and "length (media @ trailer_bytes es' ver) \<le> cap"
  shows "run_change_stitching_offset (Some (media @ trailer_bytes es ver)) (Some cap) new_offset =
           Some (Inr (0, media @ trailer_bytes es' ver))
       \<and> run_show_info (Some (media @ trailer_bytes es' ver)) = Some (Inr (0, tag_lines 0 tags'))
       \<and> tag_lines 0 tags' ! length ts1 =
           \<lparr>line_type_code = kInsFileSpecificHeaderTagTypeOffset,
            line_size = word_of_nat (length y),
            line_hdr_offset = int (length (tags_bytes ts1)), line_data = y\<rparr>
       \<and> unat (word_of_nat (length y) :: byte) = length y"
proof -
  have run: "run_change_stitching_offset (Some (media @ trailer_bytes es ver)) (Some cap) new_offset =
           Some (Inr (0, media @ trailer_bytes es' ver))"
    by (rule run_forward[OF assms(1,2,3,4,5,6,7,8) assms(13) assms(9,10,11,12) assms(15,16,17,18)])
  have small': "\<forall>t \<in> set tags'. length (snd t) \<le> 255"
    using assms(6) assms(14) unfolding assms(1) assms(2) by auto
  have four': "length tags' \<le> 4" using assms(7) unfolding assms(1) assms(2) by simp
  have tl': "tail \<noteq> [] \<longrightarrow> length tags' = 4" using assms(8) unfolding assms(1) assms(2) by simp
  have ne': "tags' \<noteq> []" unfolding assms(2) by simp
  have sh: "run_show_info (Some (media @ trailer_bytes es' ver)) = Some (Inr (0, tag_lines 0 tags'))"
    by (rule run_show_forward[OF small' four' tl' ne' assms(10) assms(11,12) assms(16)])
  have ln: "tag_lines 0 tags' ! length ts1 =
           \<lparr>line_type_code = kInsFileSpecificHeaderTagTypeOffset,
            line_size = word_of_nat (length y),
            line_hdr_offset = int (length (tags_bytes ts1)), line_data = y\<rparr>"
    unfolding assms(2) using tag_lines_nth[of 0 ts1 "(kInsFileSpecificHeaderTagTypeOffset, y)" ts2]
    by simp
  from run sh ln unat_byte_of_nat[OF assms(14)] show ?thesis by simp
qed

theorem rewrite_then_decode_yields_offset_witness:
  "run_change_stitching_offset
     (Some ([1, 2, 3] @ trailer_bytes
        [(0x0300, [9, 9]),
         (0x0101, tags_bytes [(0x0A, [0x41]), (kInsFileSpecificHeaderTagTypeOffset, [0x61])])] 3))
     (Some 200) [0x62, 0x63] =
   Some (Inr (0, [1, 2, 3] @ trailer_bytes
        [(0x0300, [9, 9]),
         (0x0101, tags_bytes [(0x0A, [0x41]), (kInsFileSpecificHeaderTagTypeOffset, [0x62, 0x63])])] 3))
   \<and> run_show_info (Some ([1, 2, 3] @ trailer_bytes
        [(0x0300, [9, 9]),
         (0x0101, tags_bytes [(0x0A, [0x41]), (kInsFileSpecificHeaderTagTypeOffset, [0x62, 0x63])])] 3)) =
     Some (Inr (0, [\<lparr>line_type_code = 0x0A, line_size = 1, line_hdr_offset = 0, line_data = [0x41]\<rparr>,
                    \<lparr>line_type_code = 0x2A, line_size = 2, line_hdr_offset = 3,
                     line_data = [0x62, 0x63]\<rparr>]))"
  using rewrite_then_decode_yields_offset[where
      tags = "[(0x0A, [0x41]), (kInsFileSpecificHeaderTagTypeOffset, [0x61])]"
      and tags' = "[(0x0A, [0x41]), (kInsFileSpecificHeaderTagTypeOffset, [0x62, 0x63])]"
      and ?ts1.0 = "[(0x0A, [0x41])]" and x = "[0x61]" and y = "[0x62, 0x63]"
      and ?ts2.0 = "[]" and tail = "[]"
      and es = "[(0x0300, [9, 9]),
         (0x0101, tags_bytes [(0x0A, [0x41]), (kInsFileSpecificHeaderTagTypeOffset, [0x61])])]"
      and es' = "[(0x0300, [9, 9]),
         (0x0101, tags_bytes [(0x0A, [0x41]), (kInsFileSpecificHeaderTagTypeOffset, [0x62, 0x63])])]"
      and ?es1.0 = "[(0x0300, [9, 9])]" and ?es2.0 = "[]" and new_offset = "[0x62, 0x63]"
      and ver = 3 and media = "[1, 2, 3]" and cap = 200]
  by (simp add: kInsFileSpecificHeaderTagTypeOffset_def c_string_def tag_bytes_def)

subsection \<open>Claim C8: the tail after the last tag\<close>

text \<open>
  Claim C8 fails on the code where the value of the last tag runs past the payload. Such a
  tag passes the size check when it overruns by at most two bytes (the check of claim C3);
  the cursor then exceeds \<open>hdr_size\<close>, the loop ends with success, and what is stored as the
  tail is a negative size and a pointer beyond the end of the payload, not the remaining
  bytes. This happens before four tags were read (two tags in a payload of five bytes: tail
  size -1, tail pointer 6) and at the fourth tag (four tags in a payload of eight bytes:
  tail size -2, tail pointer 10).
\<close>

theorem tail_size_negative_after_overrunning_tag:
  "ins_decode_trailer_specific_header [0x01, 0x00, 0x0A, 0x02, 0x41] 0 5 []
     = Inr \<lparr>hdr_elements_count = 2,
            out_hdr_elements = [\<lparr>hdr_offset = 0, tag_hdr = \<lparr>type_code = 0x01, data_size = 0\<rparr>,
                                 tag_data = 2\<rparr>,
                                \<lparr>hdr_offset = 2, tag_hdr = \<lparr>type_code = 0x0A, data_size = 2\<rparr>,
                                 tag_data = 4\<rparr>],
            out_tail_ptr = 6, out_tail_size = - 1\<rparr>
   \<and> ins_decode_trailer_specific_header [0x01, 0x00, 0x02, 0x00, 0x03, 0x00, 0x04, 0x02] 0 8 []
     = Inr \<lparr>hdr_elements_count = 4,
            out_hdr_elements = [\<lparr>hdr_offset = 0, tag_hdr = \<lparr>type_code = 0x01, data_size = 0\<rparr>,
                                 tag_data = 2\<rparr>,
                                \<lparr>hdr_offset = 2, tag_hdr = \<lparr>type_code = 0x02, data_size = 0\<rparr>,
                                 tag_data = 4\<rparr>,
                                \<lparr>hdr_offset = 4, tag_hdr = \<lparr>type_code = 0x03, data_size = 0\<rparr>,
                                 tag_data = 6\<rparr>,
                                \<lparr>hdr_offset = 6, tag_hdr = \<lparr>type_code = 0x04, data_size = 2\<rparr>,
                                 tag_data = 8\<rparr>],
            out_tail_ptr = 10, out_tail_size = - 2\<rparr>"
  by (simp add: decode_eval)

subsection \<open>Claim C9: the trailer without entries\<close>

text \<open>
  Claim C9. A trailer whose \<open>trailer_len\<close> is 72 decodes to the empty entry sequence, whatever
  the buffer holds.
\<close>

theorem minimal_trailer_accepted:
  "ins_decode_trailer_data trailer_data \<lparr>trailer_len = 72, trailer_version = ver\<rparr> [] =
     Some (Inr [])"
  by (simp add: ins_decode_trailer_data_def kInsFileMinHeaderLength_def
      kInsFileSignatureLength_def find_trailer_headers.simps[of _ 72 72])

subsection \<open>Claim C10: at least one tag\<close>

text \<open>
  Claim C10. Whenever \<open>ins_decode_trailer_specific_header\<close> succeeds it has recorded at least
  one tag: the count it returns is at least 1, the vector has grown, and the first new record
  is the tag whose two header bytes were read at offset 0 of the payload. No check against
  \<open>hdr_size\<close> comes before that, so this also holds for a payload of fewer than two bytes
  (the witness decodes a payload of length 0).
\<close>

theorem decode_specific_records_a_tag:
  assumes "ins_decode_trailer_specific_header mem hdr_data hdr_size v = Inr r"
  shows "1 \<le> hdr_elements_count r \<and> length v < length (out_hdr_elements r)
         \<and> take (length v) (out_hdr_elements r) = v
         \<and> hdr_offset (out_hdr_elements r ! length v) = 0
         \<and> read_tag_hdr mem hdr_data = Some (tag_hdr (out_hdr_elements r ! length v))"
proof -
  from decode_layout[OF assms] obtain new where new:
    "out_hdr_elements r = v @ new" "hdr_elements_count r = int (length new)"
    "new \<noteq> []" "tags_at mem hdr_data 0 new"
    by blast
  from new(3) obtain e es where "new = e # es" by (cases new) auto
  with new show ?thesis by simp
qed

theorem decode_specific_records_a_tag_witness:
  "ins_decode_trailer_specific_header [0x0A, 0x00] 0 0 []
     = Inr \<lparr>hdr_elements_count = 1,
            out_hdr_elements = [\<lparr>hdr_offset = 0, tag_hdr = \<lparr>type_code = 0x0A, data_size = 0\<rparr>,
                                 tag_data = 2\<rparr>],
            out_tail_ptr = 2, out_tail_size = - 2\<rparr>
   \<and> (1::int) \<le> hdr_elements_count \<lparr>hdr_elements_count = 1,
            out_hdr_elements = [\<lparr>hdr_offset = 0, tag_hdr = \<lparr>type_code = 0x0A, data_size = 0\<rparr>,
                                 tag_data = 2\<rparr>],
            out_tail_ptr = 2, out_tail_size = - 2\<rparr>"
proof -
  have h: "ins_decode_trailer_specific_header [0x0A, 0x00] 0 0 []
     = Inr \<lparr>hdr_elements_count = 1,
            out_hdr_elements = [\<lparr>hdr_offset = 0, tag_hdr = \<lparr>type_code = 0x0A, data_size = 0\<rparr>,
                                 tag_data = 2\<rparr>],
            out_tail_ptr = 2, out_tail_size = - 2\<rparr>"
    by (simp add: decode_eval)
  from decode_specific_records_a_tag[OF h] h show ?thesis by simp
qed

end
